theory Spec2Isabelle
  imports Main
begin

section \<open>Strings and numbers\<close>

text \<open>
  Go's \<^verbatim>\<open>int\<close> is modelled by \<^typ>\<open>int\<close>. Every integer of the program is a page
  number, a tile index, a pixel offset or the retry counter, and each of them changes by
  a bounded amount per network request, so the 64-bit range is out of reach of any run.

  \<^verbatim>\<open>strconv.Itoa\<close> prints an integer in decimal, \<^verbatim>\<open>strconv.Atoi\<close> reads one back
  (an optional sign, then decimal digits only, and the value must fit 64 bits), and
  \<^verbatim>\<open>fmt.Sprintf("%04s", s)\<close> pads \<open>s\<close> with zeros on the left up to four characters.
\<close>

definition digit_char :: "nat \<Rightarrow> char" where
  "digit_char d = ''0123456789'' ! d"

fun digits :: "nat \<Rightarrow> string" where
  "digits n = (if n < 10 then [digit_char n] else digits (n div 10) @ [digit_char (n mod 10)])"

declare digits.simps [simp del]

definition Itoa :: "int \<Rightarrow> string" where
  "Itoa i = (if i < 0 then CHR ''-'' # digits (nat (- i)) else digits (nat i))"

definition is_digit :: "char \<Rightarrow> bool" where
  "is_digit c = (c \<in> set ''0123456789'')"

definition digit_val :: "char \<Rightarrow> nat" where
  "digit_val c = of_char c - 48"

definition parse_digits :: "string \<Rightarrow> nat" where
  "parse_digits s = foldl (\<lambda>a c. 10 * a + digit_val c) 0 s"

definition Atoi :: "string \<Rightarrow> int option" where
  "Atoi s =
     (let (neg, ds) =
            (case s of
               [] \<Rightarrow> (False, [])
             | c # cs \<Rightarrow>
                 if c = CHR ''-'' then (True, cs)
                 else if c = CHR ''+'' then (False, cs)
                 else (False, s))
      in if ds = [] \<or> \<not> list_all is_digit ds then None
         else let v = int (parse_digits ds)
              in if neg then (if v \<le> 2 ^ 63 then Some (- v) else None)
                 else (if v < 2 ^ 63 then Some v else None))"

definition pad4 :: "string \<Rightarrow> string" where
  "pad4 s = replicate (4 - length s) CHR ''0'' @ s"

text \<open>\<^verbatim>\<open>filepath.Join(dir, name)\<close> for a non-empty directory name and a file name.\<close>

definition Join :: "string \<Rightarrow> string \<Rightarrow> string" where
  "Join dir name = dir @ ''/'' @ name"

section \<open>The remote source and the local world\<close>

text \<open>
  A decoded picture has its bounds at the origin (as the JPEG and PNG decoders return it),
  a width \<open>Dx\<close>, a height \<open>Dy\<close> and a colour at every point. A response body either cannot
  be read, or is read and then decodes to a picture or does not.
\<close>

type_synonym colour = nat

record image =
  Dx :: int
  Dy :: int
  At :: "int \<Rightarrow> int \<Rightarrow> colour"

datatype payload = Garbage | Picture image

datatype body = ReadError | Payload payload

fun image_Decode :: "payload \<Rightarrow> image option" where
  "image_Decode Garbage = None"
| "image_Decode (Picture i) = Some i"

record response =
  StatusCode :: int
  Body :: body

text \<open>
  \<^verbatim>\<open>client.Get\<close> returns a pair \<^verbatim>\<open>(resp, err)\<close>: \<open>Answered r\<close> is \<^verbatim>\<open>err == nil\<close> with
  response \<open>r\<close>; \<open>Failed ro\<close> is \<^verbatim>\<open>err != nil\<close>, where the response is usually \<^verbatim>\<open>nil\<close>
  (\<open>None\<close>).
\<close>

datatype reply = Failed "response option" | Answered response

datatype verb = GET | HEAD

text \<open>
  The URL of a request is the template with every \<^verbatim>\<open>{key}\<close> replaced by the value of
  \<open>key\<close> in the parameters. A request carries the template and the parameters it was
  formatted from, which determine the URL, instead of the formatted string.
\<close>

type_synonym url = "string \<times> (string \<rightharpoonup> string)"

type_synonym request = "verb \<times> url"

text \<open>
  The destination image of a page: a rectangle \<open>(x0, y0, x1, y1)\<close> and a colour at every
  point. \<^verbatim>\<open>image.Rect\<close> orders its corners, \<^verbatim>\<open>image.NewRGBA\<close> starts with every pixel
  zero, and \<^verbatim>\<open>draw.Draw(dst, r, src, src.Bounds().Min, draw.Src)\<close> copies the source into
  \<open>r\<close>, clipped to the destination's bounds and to the source's bounds moved to \<open>r\<close>'s
  corner.
\<close>

type_synonym rect = "int \<times> int \<times> int \<times> int"

record raster =
  bounds :: rect
  pixels :: "int \<Rightarrow> int \<Rightarrow> colour"

definition image_Rect :: "int \<Rightarrow> int \<Rightarrow> int \<Rightarrow> int \<Rightarrow> rect" where
  "image_Rect x0 y0 x1 y1 = (min x0 x1, min y0 y1, max x0 x1, max y0 y1)"

fun in_rect :: "rect \<Rightarrow> int \<Rightarrow> int \<Rightarrow> bool" where
  "in_rect (x0, y0, x1, y1) x y = (x0 \<le> x \<and> x < x1 \<and> y0 \<le> y \<and> y < y1)"

definition NewRGBA :: "rect \<Rightarrow> raster" where
  "NewRGBA r = \<lparr>bounds = r, pixels = (\<lambda>x y. 0)\<rparr>"

definition draw_Draw :: "raster \<Rightarrow> rect \<Rightarrow> image \<Rightarrow> raster" where
  "draw_Draw dst r src =
     (let ox = fst r; oy = fst (snd r)
      in dst\<lparr>pixels := (\<lambda>x y.
           if in_rect r x y \<and> in_rect (bounds dst) x y
              \<and> in_rect (ox, oy, ox + Dx src, oy + Dy src) x y
           then At src (x - ox) (y - oy)
           else pixels dst x y)\<rparr>)"

text \<open>
  A page file holds the encoded raster (tiled program), the body as it was received
  (direct program), whatever a failed write left behind, or nothing at all: a file that
  was created and never written to.
\<close>

datatype content = Jpeg raster | Raw payload | Truncated | Empty

text \<open>
  The world outside the program: the requests issued so far with their replies, the page
  files of the working directory, the image files handed to the PDF writer in call order,
  and a record of each page assembly of the tiled program: the page, and the retry
  budget, rows, columns and page size that the assembly found in the session.
\<close>

record world =
  requests :: "(request \<times> reply) list"
  files :: "string \<rightharpoonup> content"
  pdf :: "string list"
  assembled :: "(string \<times> int \<times> int \<times> int \<times> (int \<times> int)) list"

text \<open>
  The environment is what the program cannot control: the reply of the remote source to
  the \<open>n\<close>-th request of the run, and whether a file can be created and written.
\<close>

record env =
  srv :: "nat \<Rightarrow> request \<Rightarrow> reply"
  create_ok :: "string \<Rightarrow> bool"
  write_ok :: "string \<Rightarrow> bool"

definition client_do :: "env \<Rightarrow> verb \<Rightarrow> url \<Rightarrow> world \<Rightarrow> reply \<times> world" where
  "client_do e m u w =
     (let r = srv e (length (requests w)) (m, u)
      in (r, w\<lparr>requests := requests w @ [((m, u), r)]\<rparr>))"

text \<open>The test \<^verbatim>\<open>err != nil || resp.StatusCode != http.StatusOK\<close>.\<close>

fun not_ok :: "reply \<Rightarrow> bool" where
  "not_ok (Failed ro) = True"
| "not_ok (Answered r) = (StatusCode r \<noteq> 200)"

text \<open>
  How a run can stop early: \<^verbatim>\<open>os.Exit(1)\<close>, or a nil dereference. A stopped run is
  \<open>Inl\<close> of the reason with the session and the world at that moment.
\<close>

datatype stop = Exit1 | Panic

section \<open>The book session\<close>

text \<open>
  The direct program's \<^verbatim>\<open>Book\<close>; the tiled program's \<^verbatim>\<open>Book\<close> has the grid in addition.
  The HTTP client with its cookies is part of the environment.
\<close>

record Book =
  book_id :: string
  book_length :: int
  retry :: int
  path :: string
  urlTemplate :: string
  documentType :: string
  params :: "string \<rightharpoonup> string"

record TBook = Book +
  rows :: int
  cols :: int
  imgSize :: "int \<times> int"

definition formatURL :: "'a Book_scheme \<Rightarrow> url" where
  "formatURL b = (urlTemplate b, params b)"

text \<open>\<^verbatim>\<open>updateParams\<close> of the tiled program (main.go).\<close>

definition set_page :: "string \<Rightarrow> (string \<rightharpoonup> string) \<Rightarrow> (string \<rightharpoonup> string)" where
  "set_page pageNr p =
     (if pageNr \<noteq> [] then
        p(''page_nr'' \<mapsto> pageNr,
          ''long_page_nr'' \<mapsto> (if Atoi pageNr \<noteq> None then pad4 pageNr else pageNr))
      else p)"

definition updateParams :: "string \<Rightarrow> string \<Rightarrow> string \<Rightarrow> TBook \<Rightarrow> TBook" where
  "updateParams pageNr col row b =
     (let p1 = set_page pageNr (params b);
          p2 = (if col \<noteq> [] then p1(''col'' \<mapsto> col) else p1);
          p3 = (if row \<noteq> [] then p2(''row'' \<mapsto> row) else p2)
      in b\<lparr>params := p3\<rparr>)"

section \<open>Grid prober (main.go)\<close>

partial_function (option) findRows_loop :: "env \<Rightarrow> TBook \<times> world \<Rightarrow> (TBook \<times> world) option" where
  "findRows_loop e bw =
     (let b0 = (fst bw)\<lparr>rows := rows (fst bw) + 1\<rparr>;
          b1 = updateParams ''1'' ''0'' (Itoa (rows b0)) b0;
          rw = client_do e GET (formatURL b1) (snd bw)
      in case fst rw of
           Failed ro \<Rightarrow> Some (b1, snd rw)
         | Answered resp \<Rightarrow>
             if StatusCode resp \<noteq> 200 then Some (b1, snd rw)
             else (case Body resp of
                     ReadError \<Rightarrow> Some (b1, snd rw)
                   | Payload imgData \<Rightarrow>
                       (case image_Decode imgData of
                          None \<Rightarrow> Some (b1, snd rw)
                        | Some img \<Rightarrow>
                            findRows_loop e
                              (b1\<lparr>imgSize := (fst (imgSize b1), snd (imgSize b1) + Dy img)\<rparr>,
                               snd rw))))"

partial_function (option) findCols_loop :: "env \<Rightarrow> TBook \<times> world \<Rightarrow> (TBook \<times> world) option" where
  "findCols_loop e bw =
     (let b0 = (fst bw)\<lparr>cols := cols (fst bw) + 1\<rparr>;
          b1 = updateParams ''1'' (Itoa (cols b0)) ''0'' b0;
          rw = client_do e GET (formatURL b1) (snd bw)
      in case fst rw of
           Failed ro \<Rightarrow> Some (b1, snd rw)
         | Answered resp \<Rightarrow>
             if StatusCode resp \<noteq> 200 then Some (b1, snd rw)
             else (case Body resp of
                     ReadError \<Rightarrow> Some (b1, snd rw)
                   | Payload imgData \<Rightarrow>
                       (case image_Decode imgData of
                          None \<Rightarrow> Some (b1, snd rw)
                        | Some img \<Rightarrow>
                            findCols_loop e
                              (b1\<lparr>imgSize := (fst (imgSize b1) + Dx img, snd (imgSize b1))\<rparr>,
                               snd rw))))"

declare findRows_loop.simps [code]
declare findCols_loop.simps [code]

definition findRowsColsAndImgSize :: "env \<Rightarrow> TBook \<times> world \<Rightarrow> (TBook \<times> world) option" where
  "findRowsColsAndImgSize e bw = Option.bind (findRows_loop e bw) (findCols_loop e)"

text \<open>
  \<^verbatim>\<open>NewBook\<close>: the \<^verbatim>\<open>Book\<close> literal, then the grid discovery. The cookie arguments
  only fill the client's cookie jar and the working directory is created when missing;
  both belong to the environment here.
\<close>

definition fresh_session :: "string \<Rightarrow> int \<Rightarrow> string \<Rightarrow> TBook" where
  "fresh_session bookID len docType =
     (let docType1 = (if docType = [] then ''digibok'' else docType)
      in \<lparr>book_id = bookID, book_length = len, retry = 2,
          path = bookID @ ''_temp_image_folder'',
          urlTemplate =
            ''https://www.nb.no/services/image/resolver?url_ver=geneza&urn=URN:NBN:no-nb_''
            @ docType1
            @ ''_{book_id}_{long_page_nr}&maxLevel=5&level=5&col={col}&row={row}''
            @ ''&resX=9999&resY=9999&tileWidth=1024&tileHeight=1024&pg_id={page_nr}'',
          documentType = docType1,
          params = [''book_id'' \<mapsto> bookID, ''page_nr'' \<mapsto> ''1'',
                    ''long_page_nr'' \<mapsto> ''0001'', ''col'' \<mapsto> ''0'', ''row'' \<mapsto> ''0''],
          rows = - 1, cols = - 1, imgSize = (0, 0)\<rparr>)"

definition NewBook :: "env \<Rightarrow> string \<Rightarrow> int \<Rightarrow> string \<Rightarrow> world \<Rightarrow> (TBook \<times> world) option" where
  "NewBook e bookID len docType w =
     findRowsColsAndImgSize e (fresh_session bookID len docType, w)"

section \<open>Length finder (main.go)\<close>

partial_function (option) findBookLength_loop ::
  "env \<Rightarrow> int \<Rightarrow> int \<Rightarrow> TBook \<times> world \<Rightarrow> (int \<times> TBook \<times> world) option" where
  "findBookLength_loop e delta j bw =
     (let b1 = updateParams (Itoa j) ''0'' ''0'' (fst bw);
          rw = client_do e GET (formatURL b1) (snd bw)
      in if not_ok (fst rw) then
           if delta = 1 then Some (j - 1, b1, snd rw)
           else
             let j1 = j - delta;
                 d1 = delta div 10;
                 d2 = (if d1 < 1 then 1 else d1)
             in findBookLength_loop e d2 (j1 + d2) (b1, snd rw)
         else findBookLength_loop e delta (j + delta) (b1, snd rw))"

declare findBookLength_loop.simps [code]

definition findBookLength :: "env \<Rightarrow> TBook \<times> world \<Rightarrow> (int \<times> TBook \<times> world) option" where
  "findBookLength e bw = findBookLength_loop e 100 100 bw"

section \<open>Page assembler (main.go)\<close>

text \<open>The Go \<^verbatim>\<open>resp\<close> pointer of a reply: \<open>None\<close> is \<^verbatim>\<open>nil\<close>.\<close>

fun resp_of :: "reply \<Rightarrow> response option" where
  "resp_of (Failed ro) = ro"
| "resp_of (Answered r) = Some r"

text \<open>The test \<^verbatim>\<open>resp != nil && resp.StatusCode == http.StatusUnauthorized\<close>.\<close>

definition unauthorized :: "reply \<Rightarrow> bool" where
  "unauthorized r = (case resp_of r of None \<Rightarrow> False | Some resp \<Rightarrow> StatusCode resp = 401)"

text \<open>
  The inner loop \<^verbatim>\<open>for col < b.cols\<close> of \<^verbatim>\<open>downloadPage\<close>, with the locals
  \<open>(img, xOffset, yOffset)\<close>. A failed request with budget left does \<^verbatim>\<open>col--\<close> and then
  \<^verbatim>\<open>col++\<close>; a body that cannot be read or decoded does \<^verbatim>\<open>continue\<close>, which skips the
  \<^verbatim>\<open>col++\<close> at the end of the loop body.
\<close>

partial_function (option) downloadPage_cols ::
  "env \<Rightarrow> string \<Rightarrow> int \<Rightarrow> int \<Rightarrow> raster \<times> int \<times> int \<Rightarrow> TBook \<times> world
     \<Rightarrow> ((stop \<times> TBook \<times> world) + ((raster \<times> int \<times> int) \<times> TBook \<times> world)) option" where
  "downloadPage_cols e pageNr row col loc bw =
     (if col < cols (fst bw) then
        (let b1 = updateParams pageNr (Itoa col) (Itoa row) (fst bw);
             rw = client_do e GET (formatURL b1) (snd bw);
             w1 = snd rw
         in if not_ok (fst rw) then
              (if unauthorized (fst rw) then Some (Inl (Exit1, b1, w1))
               else if retry b1 \<ge> 0 then
                 downloadPage_cols e pageNr row col loc (b1\<lparr>retry := retry b1 - 1\<rparr>, w1)
               else downloadPage_cols e pageNr row (col + 1) loc (b1, w1))
            else
              (case resp_of (fst rw) of
                 None \<Rightarrow> Some (Inl (Panic, b1, w1))
               | Some resp \<Rightarrow>
                   (case Body resp of
                      ReadError \<Rightarrow> downloadPage_cols e pageNr row col loc (b1, w1)
                    | Payload imgData \<Rightarrow>
                        (case image_Decode imgData of
                           None \<Rightarrow> downloadPage_cols e pageNr row col loc (b1, w1)
                         | Some partialPage \<Rightarrow>
                             (let img = fst loc;
                                  xOffset = fst (snd loc);
                                  yOffset = snd (snd loc);
                                  img1 = draw_Draw img
                                           (image_Rect xOffset yOffset
                                              (xOffset + Dx partialPage) (yOffset + Dy partialPage))
                                           partialPage;
                                  loc1 = (if col = cols b1 - 1
                                          then (img1, 0, yOffset + Dy partialPage)
                                          else (img1, xOffset + Dx partialPage, yOffset))
                              in downloadPage_cols e pageNr row (col + 1) loc1 (b1, w1))))))
      else Some (Inr (loc, bw)))"

text \<open>The outer loop \<^verbatim>\<open>for row := 0; row < b.rows; row++\<close>.\<close>

partial_function (option) downloadPage_rows ::
  "env \<Rightarrow> string \<Rightarrow> int \<Rightarrow> raster \<times> int \<times> int \<Rightarrow> TBook \<times> world
     \<Rightarrow> ((stop \<times> TBook \<times> world) + ((raster \<times> int \<times> int) \<times> TBook \<times> world)) option" where
  "downloadPage_rows e pageNr row loc bw =
     (if row < rows (fst bw) then
        (case downloadPage_cols e pageNr row 0 loc bw of
           None \<Rightarrow> None
         | Some (Inl s) \<Rightarrow> Some (Inl s)
         | Some (Inr (loc1, bw1)) \<Rightarrow> downloadPage_rows e pageNr (row + 1) loc1 bw1)
      else Some (Inr (loc, bw)))"

declare downloadPage_cols.simps [code]
declare downloadPage_rows.simps [code]

text \<open>
  \<^verbatim>\<open>jpeg.Encode(outFile, img, ...)\<close> on the file that \<^verbatim>\<open>os.Create\<close> has just made empty.
  The encoder refuses an image with a side of \<open>65536\<close> pixels or more before it writes
  anything, so the file stays empty; a write that fails leaves a truncated file; otherwise
  the file holds the encoded raster. The result is what the file holds afterwards.
\<close>

definition jpeg_Encode :: "env \<Rightarrow> string \<Rightarrow> raster \<Rightarrow> content" where
  "jpeg_Encode e outPath img =
     (let r = bounds img;
          dx = fst (snd (snd r)) - fst r;
          dy = snd (snd (snd r)) - fst (snd r)
      in if dx \<ge> 65536 \<or> dy \<ge> 65536 then Empty
         else if \<not> write_ok e outPath then Truncated
         else Jpeg img)"

text \<open>
  \<^verbatim>\<open>downloadPage\<close>; its second parameter \<^verbatim>\<open>retry\<close> is never read and is left out. The
  first line records the call in \<open>assembled\<close>. The error of \<^verbatim>\<open>jpeg.Encode\<close> is dropped by
  the source, so the call returns in the same way whether the page was encoded or not.
\<close>

definition downloadPage ::
  "env \<Rightarrow> string \<Rightarrow> TBook \<times> world \<Rightarrow> ((stop \<times> TBook \<times> world) + (TBook \<times> world)) option" where
  "downloadPage e pageNr bw =
     (let b = fst bw;
          w0 = (snd bw)\<lparr>assembled := assembled (snd bw) @ [(pageNr, retry b, rows b, cols b, imgSize b)]\<rparr>;
          img = NewRGBA (image_Rect 0 0 (fst (imgSize b)) (snd (imgSize b)))
      in case downloadPage_rows e pageNr 0 (img, 0, 0) (b, w0) of
           None \<Rightarrow> None
         | Some (Inl s) \<Rightarrow> Some (Inl s)
         | Some (Inr (loc1, b1, w1)) \<Rightarrow>
             (let outPath = Join (path b1) (pageNr @ ''.jpg'')
              in if \<not> create_ok e outPath then Some (Inr (b1, w1))
                 else Some (Inr (b1, w1\<lparr>files := (files w1)(outPath \<mapsto>
                                                  jpeg_Encode e outPath (fst loc1))\<rparr>))))"

section \<open>Download orchestrator (main.go)\<close>

text \<open>Sequencing of steps that may not return (\<open>None\<close>) or may stop the run (\<open>Inl\<close>).\<close>

definition and_then :: "('e + 'a) option \<Rightarrow> ('a \<Rightarrow> ('e + 'b) option) \<Rightarrow> ('e + 'b) option" where
  "and_then m f = (case m of None \<Rightarrow> None | Some (Inl s) \<Rightarrow> Some (Inl s) | Some (Inr x) \<Rightarrow> f x)"

definition add_page :: "string \<Rightarrow> world \<Rightarrow> world" where
  "add_page file w = w\<lparr>pdf := pdf w @ [file]\<rparr>"

text \<open>The loop \<^verbatim>\<open>for page := 1; page <= b.length; page++\<close> that downloads the pages.\<close>

partial_function (option) downloadBook_pages ::
  "env \<Rightarrow> int \<Rightarrow> TBook \<times> world \<Rightarrow> ((stop \<times> TBook \<times> world) + (TBook \<times> world)) option" where
  "downloadBook_pages e page bw =
     (if page \<le> book_length (fst bw) then
        (case downloadPage e (Itoa page) bw of
           None \<Rightarrow> None
         | Some (Inl s) \<Rightarrow> Some (Inl s)
         | Some (Inr (b1, w1)) \<Rightarrow> downloadBook_pages e (page + 1) (b1\<lparr>retry := 2\<rparr>, w1))
      else Some (Inr bw))"

declare downloadBook_pages.simps [code]

text \<open>
  \<^verbatim>\<open>downloadBook\<close>. The PDF starts empty; \<^verbatim>\<open>pdf.AddPage\<close> followed by \<^verbatim>\<open>pdf.Image(file)\<close>
  is \<open>add_page file\<close>. Writing the PDF at the end changes nothing that is modelled.
\<close>

definition downloadBook ::
  "env \<Rightarrow> TBook \<times> world \<Rightarrow> ((stop \<times> TBook \<times> world) + (TBook \<times> world)) option" where
  "downloadBook e bw =
     (let b = fst bw; w = (snd bw)\<lparr>pdf := []\<rparr>
      in and_then
           (if book_length b = 0 then
              (case findBookLength e (b, w) of
                 None \<Rightarrow> None
               | Some (n, b1, w1) \<Rightarrow> Some (Inr (b1\<lparr>book_length := n\<rparr>, w1)))
            else Some (Inr (b, w)))
           (\<lambda>bw1. and_then (downloadPage e ''C1'' bw1)
           (\<lambda>(b2, w2). and_then
              (downloadBook_pages e 1
                 (b2\<lparr>retry := 2\<rparr>, add_page (Join (path b2) ''C1.jpg'') w2))
           (\<lambda>(b3, w3). and_then
              (downloadPage e ''C3''
                 (b3, w3\<lparr>pdf := pdf w3 @ map (\<lambda>page. Join (path b3) (Itoa page @ ''.jpg''))
                                          [1..book_length b3]\<rparr>))
           (\<lambda>(b4, w4). Some (Inr (b4, add_page (Join (path b4) ''C3.jpg'') w4)))))))"

text \<open>\<^verbatim>\<open>main\<close> after flag parsing: the session is built, then the book is downloaded.\<close>

definition main ::
  "env \<Rightarrow> string \<Rightarrow> int \<Rightarrow> string \<Rightarrow> world \<Rightarrow> ((stop \<times> TBook \<times> world) + (TBook \<times> world)) option" where
  "main e bookID len docType w =
     (case NewBook e bookID len docType w of
        None \<Rightarrow> None
      | Some bw \<Rightarrow> downloadBook e bw)"

section \<open>The direct program\<close>

text \<open>
  The second program of the repository fetches each page with one request. Its functions
  have the names of the tiled program's; here they carry the suffix \<open>_direct\<close>.
\<close>

definition updateParams_direct :: "string \<Rightarrow> Book \<Rightarrow> Book" where
  "updateParams_direct pageNr b = b\<lparr>params := set_page pageNr (params b)\<rparr>"

text \<open>\<^verbatim>\<open>NewBook\<close> of the direct program; it issues no request.\<close>

definition NewBook_direct :: "string \<Rightarrow> int \<Rightarrow> string \<Rightarrow> Book" where
  "NewBook_direct bookID len docType =
     (let docType1 = (if docType = [] then ''digibok'' else docType)
      in \<lparr>book_id = bookID, book_length = len, retry = 2,
          path = bookID @ ''_temp_image_folder'',
          urlTemplate =
            ''https://www.nb.no/services/image/resolver/URN:NBN:no-nb_'' @ docType1
            @ ''_{book_id}_{long_page_nr}/full/602,/0/default.jpg'',
          documentType = docType1,
          params = [''book_id'' \<mapsto> bookID, ''page_nr'' \<mapsto> ''1'', ''long_page_nr'' \<mapsto> ''0001'']\<rparr>)"

text \<open>
  \<^verbatim>\<open>downloadPage\<close>. The failure branch starts by printing \<^verbatim>\<open>resp.StatusCode\<close>, which is a
  nil dereference when the request failed without a response. A 401 or 403 status then
  prints advice and the cookies, and continues with the retry test like any other
  failure. The retry is the function calling itself; the \<^verbatim>\<open>retry\<close> parameter is never
  read and is left out.
\<close>

function downloadPage_direct ::
  "env \<Rightarrow> string \<Rightarrow> Book \<times> world \<Rightarrow> (stop \<times> Book \<times> world) + (Book \<times> world)" where
  "downloadPage_direct e pageNr bw =
     (let b1 = updateParams_direct pageNr (fst bw);
          rw = client_do e GET (formatURL b1) (snd bw);
          w1 = snd rw
      in case resp_of (fst rw) of
           None \<Rightarrow> Inl (Panic, b1, w1)
         | Some resp \<Rightarrow>
             if not_ok (fst rw) then
               (if retry b1 \<ge> 0 then
                  downloadPage_direct e pageNr (b1\<lparr>retry := retry b1 - 1\<rparr>, w1)
                else Inr (b1, w1))
             else
               (case Body resp of
                  ReadError \<Rightarrow> Inr (b1, w1)
                | Payload imgData \<Rightarrow>
                    (let outPath = Join (path b1) (pageNr @ ''.jpg'')
                     in if \<not> create_ok e outPath then Inr (b1, w1)
                        else if \<not> write_ok e outPath then
                          Inr (b1, w1\<lparr>files := (files w1)(outPath \<mapsto> Truncated)\<rparr>)
                        else
                          Inr (b1\<lparr>retry := 2\<rparr>,
                               w1\<lparr>files := (files w1)(outPath \<mapsto> Raw imgData)\<rparr>))))"
  by pat_completeness auto
termination
  by (relation "measure (\<lambda>(e, pageNr, bw). nat (retry (fst bw) + 1))")
     (auto simp: updateParams_direct_def)

declare downloadPage_direct.simps [simp del]

partial_function (option) findBookLength_loop_direct ::
  "env \<Rightarrow> int \<Rightarrow> int \<Rightarrow> Book \<times> world \<Rightarrow> (int \<times> Book \<times> world) option" where
  "findBookLength_loop_direct e delta j bw =
     (let b1 = updateParams_direct (Itoa j) (fst bw);
          rw = client_do e GET (formatURL b1) (snd bw)
      in if not_ok (fst rw) then
           if delta = 1 then Some (j - 1, b1, snd rw)
           else
             let j1 = j - delta;
                 d1 = delta div 10;
                 d2 = (if d1 < 1 then 1 else d1)
             in findBookLength_loop_direct e d2 (j1 + d2) (b1, snd rw)
         else findBookLength_loop_direct e delta (j + delta) (b1, snd rw))"

declare findBookLength_loop_direct.simps [code]

definition findBookLength_direct :: "env \<Rightarrow> Book \<times> world \<Rightarrow> (int \<times> Book \<times> world) option" where
  "findBookLength_direct e bw = findBookLength_loop_direct e 100 100 bw"

text \<open>
  The introduction-page loop of \<^verbatim>\<open>downloadBook\<close>: a \<^verbatim>\<open>HEAD\<close> request for \<^verbatim>\<open>I<n>\<close> and,
  when it is answered with status 200, the download of that page. It returns the final
  \<^verbatim>\<open>introPageNum\<close>.
\<close>

partial_function (option) downloadBook_intro ::
  "env \<Rightarrow> int \<Rightarrow> Book \<times> world \<Rightarrow> ((stop \<times> Book \<times> world) + (int \<times> Book \<times> world)) option" where
  "downloadBook_intro e introPageNum bw =
     (let introPage = ''I'' @ Itoa introPageNum;
          b1 = updateParams_direct introPage (fst bw);
          rw = client_do e HEAD (formatURL b1) (snd bw)
      in if not_ok (fst rw) then Some (Inr (introPageNum, b1, snd rw))
         else
           (case downloadPage_direct e introPage (b1, snd rw) of
              Inl s \<Rightarrow> Some (Inl s)
            | Inr bw1 \<Rightarrow> downloadBook_intro e (introPageNum + 1) bw1))"

partial_function (option) downloadBook_pages_direct ::
  "env \<Rightarrow> int \<Rightarrow> Book \<times> world \<Rightarrow> ((stop \<times> Book \<times> world) + (Book \<times> world)) option" where
  "downloadBook_pages_direct e page bw =
     (if page \<le> book_length (fst bw) then
        (case downloadPage_direct e (Itoa page) bw of
           Inl s \<Rightarrow> Some (Inl s)
         | Inr bw1 \<Rightarrow> downloadBook_pages_direct e (page + 1) bw1)
      else Some (Inr bw))"

declare downloadBook_intro.simps [code]
declare downloadBook_pages_direct.simps [code]

text \<open>
  The PDF stage adds a page file only when \<^verbatim>\<open>os.Stat\<close> finds it: the front cover, the
  introduction pages below \<^verbatim>\<open>introPageNum\<close>, the numbered pages and the back cover.
\<close>

definition pdf_files :: "Book \<Rightarrow> int \<Rightarrow> string list" where
  "pdf_files b introPageNum =
     map (\<lambda>pageStr. Join (path b) (pageStr @ ''.jpg''))
       ([''C1''] @ map (\<lambda>i. ''I'' @ Itoa i) [1..introPageNum - 1]
        @ map Itoa [1..book_length b] @ [''C3''])"

definition downloadBook_direct ::
  "env \<Rightarrow> Book \<times> world \<Rightarrow> ((stop \<times> Book \<times> world) + (Book \<times> world)) option" where
  "downloadBook_direct e bw =
     (let b = fst bw; w = (snd bw)\<lparr>pdf := []\<rparr>
      in and_then
           (if book_length b = 0 then
              (case findBookLength_direct e (b, w) of
                 None \<Rightarrow> None
               | Some (n, b1, w1) \<Rightarrow> Some (Inr (b1\<lparr>book_length := n\<rparr>, w1)))
            else Some (Inr (b, w)))
           (\<lambda>bw1. and_then (Some (downloadPage_direct e ''C1'' bw1))
           (\<lambda>bw2. and_then (downloadBook_intro e 1 bw2)
           (\<lambda>(introPageNum, bw3). and_then (downloadBook_pages_direct e 1 bw3)
           (\<lambda>bw4. and_then (Some (downloadPage_direct e ''C3'' bw4))
           (\<lambda>(b5, w5).
              Some (Inr (b5, w5\<lparr>pdf := filter (\<lambda>f. files w5 f \<noteq> None)
                                         (pdf_files b5 introPageNum)\<rparr>))))))))"

section \<open>Synthetic sources and sessions\<close>

text \<open>
  Concrete inputs on which the theorems below are instantiated. A synthetic tile is a
  \<open>w \<times> h\<close> picture whose colour is a marker of its grid coordinate.
\<close>

definition blank_world :: world where
  "blank_world = \<lparr>requests = [], files = Map.empty, pdf = [], assembled = []\<rparr>"

definition sandbox :: "(nat \<Rightarrow> request \<Rightarrow> reply) \<Rightarrow> env" where
  "sandbox s = \<lparr>srv = s, create_ok = (\<lambda>f. True), write_ok = (\<lambda>f. True)\<rparr>"

definition tile :: "int \<Rightarrow> int \<Rightarrow> int \<Rightarrow> int \<Rightarrow> image" where
  "tile w h r c = \<lparr>Dx = w, Dy = h, At = (\<lambda>x y. nat (1 + 100 * r + c))\<rparr>"

definition ok_reply :: "image \<Rightarrow> reply" where
  "ok_reply i = Answered \<lparr>StatusCode = 200, Body = Payload (Picture i)\<rparr>"

definition status_reply :: "int \<Rightarrow> reply" where
  "status_reply n = Answered \<lparr>StatusCode = n, Body = Payload Garbage\<rparr>"

text \<open>The pages of a book of \<open>N\<close> numbered pages: the two covers and \<open>1..N\<close>.\<close>

definition valid_page :: "int \<Rightarrow> string \<Rightarrow> bool" where
  "valid_page N p =
     (case Atoi p of Some n \<Rightarrow> 1 \<le> n \<and> n \<le> N | None \<Rightarrow> p = ''C1'' \<or> p = ''C3'')"

definition field_int :: "request \<Rightarrow> string \<Rightarrow> int option" where
  "field_int q k = (case snd (snd q) k of None \<Rightarrow> None | Some v \<Rightarrow> Atoi v)"

text \<open>
  A tiled source for a book of \<open>N\<close> pages with an \<open>R \<times> C\<close> grid of \<open>w \<times> h\<close> tiles: status
  200 with the tile for a valid page, row and column, status 404 otherwise.
\<close>

definition grid_source :: "int \<Rightarrow> int \<Rightarrow> int \<Rightarrow> int \<Rightarrow> int \<Rightarrow> nat \<Rightarrow> request \<Rightarrow> reply" where
  "grid_source N R C w h t q =
     (case (snd (snd q) ''page_nr'', field_int q ''row'', field_int q ''col'') of
        (Some p, Some r, Some c) \<Rightarrow>
          if valid_page N p \<and> 0 \<le> r \<and> r < R \<and> 0 \<le> c \<and> c < C then ok_reply (tile w h r c)
          else status_reply 404
      | _ \<Rightarrow> status_reply 404)"

text \<open>
  A direct source for a book of \<open>N\<close> pages with the introduction pages \<open>I1..IK\<close>: status
  200 with a picture for an existing page, status 404 otherwise.
\<close>

definition page_source :: "int \<Rightarrow> int \<Rightarrow> nat \<Rightarrow> request \<Rightarrow> reply" where
  "page_source N K t q =
     (case snd (snd q) ''page_nr'' of
        None \<Rightarrow> status_reply 404
      | Some p \<Rightarrow>
          if valid_page N p \<or> p \<in> set (map (\<lambda>i. ''I'' @ Itoa i) [1..K])
          then ok_reply (tile 602 800 0 0)
          else status_reply 404)"

text \<open>
  A source that answers every request for page \<open>p\<close> with status 200 and a body that is not
  an image, and every other request as \<open>s\<close> does.
\<close>

definition undecodable_page :: "string \<Rightarrow> (nat \<Rightarrow> request \<Rightarrow> reply) \<Rightarrow> nat \<Rightarrow> request \<Rightarrow> reply" where
  "undecodable_page p s t q =
     (if snd (snd q) ''page_nr'' = Some p
      then Answered \<lparr>StatusCode = 200, Body = Payload Garbage\<rparr>
      else s t q)"

text \<open>A source that answers every request with the same status and no picture.\<close>

definition status_source :: "int \<Rightarrow> nat \<Rightarrow> request \<Rightarrow> reply" where
  "status_source n t q = status_reply n"

text \<open>The session that \<^verbatim>\<open>NewBook\<close> builds for a source with an \<open>R \<times> C\<close> grid of \<open>w \<times> h\<close> tiles.\<close>

definition tiled_session :: "string \<Rightarrow> int \<Rightarrow> int \<Rightarrow> int \<Rightarrow> int \<Rightarrow> int \<Rightarrow> TBook" where
  "tiled_session bookID len R C w h =
     \<lparr>book_id = bookID, book_length = len, retry = 2,
      path = bookID @ ''_temp_image_folder'',
      urlTemplate =
        ''https://www.nb.no/services/image/resolver?url_ver=geneza&urn=URN:NBN:no-nb_digibok''
        @ ''_{book_id}_{long_page_nr}&maxLevel=5&level=5&col={col}&row={row}''
        @ ''&resX=9999&resY=9999&tileWidth=1024&tileHeight=1024&pg_id={page_nr}'',
      documentType = ''digibok'',
      params = [''book_id'' \<mapsto> bookID, ''page_nr'' \<mapsto> ''1'',
                ''long_page_nr'' \<mapsto> ''0001'', ''col'' \<mapsto> Itoa C, ''row'' \<mapsto> ''0''],
      rows = R, cols = C, imgSize = (C * w, R * h)\<rparr>"

section \<open>Notions used in the statements\<close>

text \<open>The request that the length finder issues for cursor \<open>j\<close>, in each program.\<close>

definition probe :: "TBook \<Rightarrow> int \<Rightarrow> request" where
  "probe b j = (GET, formatURL (updateParams (Itoa j) ''0'' ''0'' b))"

definition probe_direct :: "Book \<Rightarrow> int \<Rightarrow> request" where
  "probe_direct b j = (GET, formatURL (updateParams_direct (Itoa j) b))"

definition same_probes :: "TBook \<Rightarrow> TBook \<Rightarrow> bool" where
  "same_probes b0 b =
     (\<forall>j. updateParams (Itoa j) ''0'' ''0'' b0 = updateParams (Itoa j) ''0'' ''0'' b)"

definition length_found :: "request \<Rightarrow> int \<Rightarrow> (int \<times> 'b \<times> world) option \<Rightarrow> bool" where
  "length_found q N res =
     (\<exists>b' w'. res = Some (N, b', w') \<and> requests w' \<noteq> []
        \<and> fst (last (requests w')) = q \<and> not_ok (snd (last (requests w'))))"

definition same_probes_direct :: "Book \<Rightarrow> Book \<Rightarrow> bool" where
  "same_probes_direct b0 b =
     (\<forall>p. p \<noteq> [] \<longrightarrow> updateParams_direct p b0 = updateParams_direct p b)"

text \<open>
  The request for tile \<open>(row, col)\<close> of a page, and the picture that a reply yields: none
  when the request failed, the status is not 200, or the body cannot be read or decoded.
\<close>

definition tile_request :: "TBook \<Rightarrow> string \<Rightarrow> int \<Rightarrow> int \<Rightarrow> request" where
  "tile_request b pageNr row col = (GET, formatURL (updateParams pageNr (Itoa col) (Itoa row) b))"

definition tile_of :: "reply \<Rightarrow> image option" where
  "tile_of r =
     (case r of
        Failed ro \<Rightarrow> None
      | Answered resp \<Rightarrow>
          if StatusCode resp \<noteq> 200 then None
          else (case Body resp of ReadError \<Rightarrow> None | Payload d \<Rightarrow> image_Decode d))"

text \<open>Two sessions that format the same URL for every page and tile.\<close>

definition same_urls :: "TBook \<Rightarrow> TBook \<Rightarrow> bool" where
  "same_urls b b0 =
     (urlTemplate b = urlTemplate b0 \<and> path b = path b0 \<and>
      (\<forall>k. k = ''page_nr'' \<or> k = ''long_page_nr'' \<or> k = ''col'' \<or> k = ''row''
           \<or> params b k = params b0 k))"

definition rows_found :: "TBook \<Rightarrow> TBook \<Rightarrow> world \<Rightarrow> int \<Rightarrow> int \<Rightarrow> (int \<Rightarrow> int) \<Rightarrow> (TBook \<times> world) option \<Rightarrow> bool" where
  "rows_found b0 b w k R hs res =
     (\<exists>b' w'. res = Some (b', w') \<and> rows b' = R \<and> cols b' = cols b
        \<and> imgSize b' = (fst (imgSize b), snd (imgSize b) + sum hs {k..<R})
        \<and> retry b' = retry b \<and> book_length b' = book_length b
        \<and> same_urls b' b0 \<and> files w' = files w \<and> pdf w' = pdf w \<and> assembled w' = assembled w
        \<and> map fst (requests w') = map fst (requests w) @ map (\<lambda>r. tile_request b0 ''1'' r 0) [k..R])"

definition cols_found :: "TBook \<Rightarrow> TBook \<Rightarrow> world \<Rightarrow> int \<Rightarrow> int \<Rightarrow> (int \<Rightarrow> int) \<Rightarrow> (TBook \<times> world) option \<Rightarrow> bool" where
  "cols_found b0 b w k C ws res =
     (\<exists>b' w'. res = Some (b', w') \<and> cols b' = C \<and> rows b' = rows b
        \<and> imgSize b' = (fst (imgSize b) + sum ws {k..<C}, snd (imgSize b))
        \<and> retry b' = retry b \<and> book_length b' = book_length b
        \<and> same_urls b' b0 \<and> files w' = files w \<and> pdf w' = pdf w \<and> assembled w' = assembled w
        \<and> map fst (requests w') = map fst (requests w) @ map (\<lambda>c. tile_request b0 ''1'' 0 c) [k..C])"

definition paste :: "raster \<times> int \<times> int \<Rightarrow> image \<Rightarrow> int \<Rightarrow> int \<Rightarrow> raster \<times> int \<times> int" where
  "paste loc i col C =
     (let img1 = draw_Draw (fst loc)
                   (image_Rect (fst (snd loc)) (snd (snd loc))
                      (fst (snd loc) + Dx i) (snd (snd loc) + Dy i)) i
      in if col = C - 1 then (img1, 0, snd (snd loc) + Dy i)
         else (img1, fst (snd loc) + Dx i, snd (snd loc)))"

definition painted ::
  "(int \<Rightarrow> int \<Rightarrow> int \<Rightarrow> int \<Rightarrow> colour) \<Rightarrow> int \<Rightarrow> int \<Rightarrow> int \<Rightarrow> int \<Rightarrow> raster \<Rightarrow> int \<Rightarrow> int \<Rightarrow> bool" where
  "painted T tw th R C img row col =
     (bounds img = (0, 0, C * tw, R * th) \<and>
      (\<forall>r c x y. 0 \<le> r \<and> 0 \<le> c \<and> c < C \<and> (r < row \<or> (r = row \<and> c < col))
           \<and> 0 \<le> x \<and> x < tw \<and> 0 \<le> y \<and> y < th
         \<longrightarrow> pixels img (c * tw + x) (r * th + y) = T r c x y))"

definition kept :: "TBook \<Rightarrow> TBook \<Rightarrow> bool" where
  "kept b b' = (rows b' = rows b \<and> cols b' = cols b \<and> imgSize b' = imgSize b
                \<and> book_length b' = book_length b \<and> path b' = path b)"

definition row_painted ::
  "(int \<Rightarrow> int \<Rightarrow> int \<Rightarrow> int \<Rightarrow> colour) \<Rightarrow> int \<Rightarrow> int \<Rightarrow> int \<Rightarrow> int \<Rightarrow> TBook \<Rightarrow> string
     \<Rightarrow> TBook \<Rightarrow> world \<Rightarrow> int \<Rightarrow> int list
     \<Rightarrow> ((stop \<times> TBook \<times> world) + ((raster \<times> int \<times> int) \<times> TBook \<times> world)) option \<Rightarrow> bool" where
  "row_painted T tw th R C b0 p b w row cs res =
     (\<exists>img' b' w'. res = Some (Inr ((img', 0, (row + 1) * th), b', w'))
        \<and> painted T tw th R C img' (row + 1) 0
        \<and> same_urls b' b0 \<and> kept b b' \<and> retry b' = retry b
        \<and> files w' = files w \<and> pdf w' = pdf w \<and> assembled w' = assembled w
        \<and> map fst (requests w') = map fst (requests w) @ map (\<lambda>c. tile_request b0 p row c) cs)"

definition grid_requests :: "TBook \<Rightarrow> string \<Rightarrow> int \<Rightarrow> int \<Rightarrow> int \<Rightarrow> request list" where
  "grid_requests b p row R C =
     concat (map (\<lambda>r. map (\<lambda>c. tile_request b p r c) [0..C - 1]) [row..R - 1])"

definition page_painted ::
  "(int \<Rightarrow> int \<Rightarrow> int \<Rightarrow> int \<Rightarrow> colour) \<Rightarrow> int \<Rightarrow> int \<Rightarrow> int \<Rightarrow> int \<Rightarrow> TBook \<Rightarrow> string
     \<Rightarrow> TBook \<Rightarrow> world \<Rightarrow> int
     \<Rightarrow> ((stop \<times> TBook \<times> world) + ((raster \<times> int \<times> int) \<times> TBook \<times> world)) option \<Rightarrow> bool" where
  "page_painted T tw th R C b0 p b w row res =
     (\<exists>img' b' w'. res = Some (Inr ((img', 0, R * th), b', w'))
        \<and> painted T tw th R C img' R 0
        \<and> same_urls b' b0 \<and> kept b b' \<and> retry b' = retry b
        \<and> files w' = files w \<and> pdf w' = pdf w \<and> assembled w' = assembled w
        \<and> map fst (requests w') = map fst (requests w) @ grid_requests b0 p row R C)"

definition clean :: "(request \<times> reply) list \<Rightarrow> bool" where
  "clean new = (\<forall>x \<in> set new. \<not> unauthorized (snd x))"

definition auth_ok :: "world \<Rightarrow> bool \<Rightarrow> world \<Rightarrow> bool" where
  "auth_ok w ex w' =
     (\<exists>new. requests w' = requests w @ new \<and>
        (if ex then new \<noteq> [] \<and> clean (butlast new) \<and> unauthorized (snd (last new))
         else clean new))"

definition status_of :: "request \<times> reply \<Rightarrow> int option" where
  "status_of x = (case resp_of (snd x) of None \<Rightarrow> None | Some resp \<Rightarrow> Some (StatusCode resp))"

definition asked :: "request \<times> reply \<Rightarrow> verb \<times> string" where
  "asked x = (fst (fst x), case snd (snd (fst x)) ''page_nr'' of None \<Rightarrow> [] | Some p \<Rightarrow> p)"


definition untouched :: "world \<Rightarrow> world \<Rightarrow> bool" where
  "untouched w w' = (files w' = files w \<and> pdf w' = pdf w \<and> assembled w' = assembled w)"

text \<open>
  The page assemblies recorded between two worlds all found the same rows, columns and
  page size in the session.
\<close>

definition assembled_with :: "int \<times> int \<times> (int \<times> int) \<Rightarrow> world \<Rightarrow> world \<Rightarrow> bool" where
  "assembled_with g w w' =
     (\<exists>new. assembled w' = assembled w @ new \<and> list_all (\<lambda>x. snd (snd x) = g) new)"

definition session_grid :: "TBook \<Rightarrow> int \<times> int \<times> (int \<times> int)" where
  "session_grid b = (rows b, cols b, imgSize b)"

text \<open>The page files that \<^verbatim>\<open>downloadBook\<close> of the tiled program hands to the PDF writer.\<close>

definition pdf_pages :: "string \<Rightarrow> int \<Rightarrow> string list" where
  "pdf_pages dir n =
     map (\<lambda>q. Join dir (q @ ''.jpg'')) ([''C1''] @ map Itoa [1..n] @ [''C3''])"

text \<open>
  Readers of the outcome of a run or of a loop: the world and the session it ended with,
  whether it exited or returned, its request log, the retry budget left, a page file and
  the files handed to the PDF writer.
\<close>

fun world_of :: "(stop \<times> 'b \<times> world) + ('a \<times> world) \<Rightarrow> world" where
  "world_of (Inl (s, b, w)) = w"
| "world_of (Inr (x, w)) = w"

fun loop_world :: "(stop \<times> 'b \<times> world) + ('c \<times> 'a \<times> world) \<Rightarrow> world" where
  "loop_world (Inl (s, b, w)) = w"
| "loop_world (Inr (l, x, w)) = w"

fun exited :: "(stop \<times> 'b \<times> world) + 'a \<Rightarrow> bool" where
  "exited (Inl (s, b, w)) = (s = Exit1)"
| "exited (Inr x) = False"

fun finished :: "((stop \<times> 'b \<times> world) + ('a \<times> world)) option \<Rightarrow> bool" where
  "finished (Some (Inr x)) = True"
| "finished (Some (Inl x)) = False"
| "finished None = False"

fun log_of :: "((stop \<times> 'b \<times> world) + ('a \<times> world)) option \<Rightarrow> (request \<times> reply) list" where
  "log_of (Some y) = requests (world_of y)"
| "log_of None = []"

fun left_retry :: "((stop \<times> 'b Book_scheme \<times> world) + ('b Book_scheme \<times> world)) option \<Rightarrow> int option" where
  "left_retry (Some (Inr (b, w))) = Some (retry b)"
| "left_retry (Some (Inl (s, b, w))) = Some (retry b)"
| "left_retry None = None"

fun loop_book :: "(stop \<times> 'b \<times> world) + ('c \<times> 'b \<times> world) \<Rightarrow> 'b" where
  "loop_book (Inl (s, b, w)) = b"
| "loop_book (Inr (l, b, w)) = b"

fun book_of :: "(stop \<times> 'b \<times> world) + ('b \<times> world) \<Rightarrow> 'b" where
  "book_of (Inl (s, b, w)) = b"
| "book_of (Inr (b, w)) = b"





text \<open>The page file of page \<open>p\<close> in the working directory of a session.\<close>

definition page_file :: "'a Book_scheme \<Rightarrow> string \<Rightarrow> string" where
  "page_file b p = Join (path b) (p @ ''.jpg'')"



section \<open>Facts about numbers and parameters\<close>

lemma digit_char_cases:
  assumes "d < 10"
  shows "digit_val (digit_char d) = d \<and> is_digit (digit_char d)"
proof -
  from assms have "d \<in> {0, 1, 2, 3, 4, 5, 6, 7, 8, 9}" by auto
  then show ?thesis
    by (auto simp: digit_char_def digit_val_def is_digit_def)
qed

lemma digits_nonempty: "digits n \<noteq> []"
  by (subst digits.simps) simp

lemma digits_all: "list_all is_digit (digits n)"
  by (induction n rule: digits.induct) (subst digits.simps, simp add: digit_char_cases)

lemma parse_digits_snoc: "parse_digits (xs @ [c]) = 10 * parse_digits xs + digit_val c"
  by (simp add: parse_digits_def)

lemma parse_digits_digits: "parse_digits (digits n) = n"
proof (induction n rule: digits.induct)
  case (1 n)
  show ?case
  proof (cases "n < 10")
    case True
    then show ?thesis
      by (subst digits.simps) (simp add: parse_digits_def digit_char_cases)
  next
    case False
    then show ?thesis
      using 1 by (subst digits.simps) (simp add: parse_digits_snoc digit_char_cases)
  qed
qed

lemma is_digit_not_sign: "is_digit c \<Longrightarrow> c \<noteq> CHR ''-'' \<and> c \<noteq> CHR ''+''"
  by (auto simp: is_digit_def)

lemma Atoi_digits: "Atoi (digits n) = (if int n < 2 ^ 63 then Some (int n) else None)"
proof -
  obtain c cs where d: "digits n = c # cs"
    using digits_nonempty[of n] by (cases "digits n") auto
  have "is_digit c" using digits_all[of n] d by simp
  then have "c \<noteq> CHR ''-''" "c \<noteq> CHR ''+''" using is_digit_not_sign by auto
  then have "Atoi (c # cs) =
      (if int (parse_digits (c # cs)) < 2 ^ 63 then Some (int (parse_digits (c # cs))) else None)"
    using digits_all[of n] d by (simp add: Atoi_def Let_def)
  then show ?thesis using parse_digits_digits[of n] d by simp
qed

lemma Atoi_Itoa: "0 \<le> j \<Longrightarrow> Atoi (Itoa j) = (if j < 2 ^ 63 then Some j else None)"
  by (simp add: Itoa_def Atoi_digits)

lemma Itoa_nonempty: "Itoa i \<noteq> []"
  by (simp add: Itoa_def digits_nonempty)

lemma updateParams_absorb:
  "p \<noteq> [] \<Longrightarrow> c \<noteq> [] \<Longrightarrow> r \<noteq> [] \<Longrightarrow>
   updateParams p c r (updateParams p' c' r' b) = updateParams p c r b"
  by (auto simp: updateParams_def set_page_def fun_eq_iff Let_def)

lemma updateParams_direct_absorb:
  "p \<noteq> [] \<Longrightarrow> updateParams_direct p (updateParams_direct p' b) = updateParams_direct p b"
  by (auto simp: updateParams_direct_def set_page_def fun_eq_iff)

section \<open>The length finder returns the last valid page\<close>

lemma same_probes_refl: "same_probes b b"
  by (simp add: same_probes_def)

lemma same_probes_step:
  "same_probes b0 b \<Longrightarrow> same_probes (updateParams (Itoa j) ''0'' ''0'' b0) b"
  by (simp add: same_probes_def updateParams_absorb Itoa_nonempty)

lemma loop_unfold:
  assumes "same_probes b0 b"
  shows "findBookLength_loop e delta j (b0, w) =
     (let r = srv e (length (requests w)) (probe b j);
          b1 = updateParams (Itoa j) ''0'' ''0'' b0;
          w1 = w\<lparr>requests := requests w @ [(probe b j, r)]\<rparr>
      in if not_ok r then
           if delta = 1 then Some (j - 1, b1, w1)
           else findBookLength_loop e (if delta div 10 < 1 then 1 else delta div 10)
                  (j - delta + (if delta div 10 < 1 then 1 else delta div 10)) (b1, w1)
         else findBookLength_loop e delta (j + delta) (b1, w1))"
proof -
  have u: "updateParams (Itoa j) ''0'' ''0'' b0 = updateParams (Itoa j) ''0'' ''0'' b"
    using assms by (simp add: same_probes_def)
  show ?thesis
    by (subst findBookLength_loop.simps) (simp add: client_do_def u probe_def Let_def)
qed

lemma phase1:
  assumes H: "\<forall>t j. 1 \<le> j \<longrightarrow> (not_ok (srv e t (probe b j)) \<longleftrightarrow> N < j)"
  shows "1 \<le> j \<Longrightarrow> j - 1 \<le> N \<Longrightarrow> same_probes b0 b \<Longrightarrow>
     length_found (probe b (N + 1)) N (findBookLength_loop e 1 j (b0, w))"
proof (induction "nat (N + 1 - j)" arbitrary: j b0 w rule: less_induct)
  case less
  note sp = same_probes_step[OF less.prems(3), of j]
  show ?case
  proof (cases "N < j")
    case True
    then have "not_ok (srv e (length (requests w)) (probe b j))" "j = N + 1"
      using H less.prems by simp_all
    then show ?thesis
      by (simp add: loop_unfold[OF less.prems(3)] length_found_def Let_def)
  next
    case False
    then have f: "\<not> not_ok (srv e (length (requests w)) (probe b j))"
      using H less.prems(1) by simp
    show ?thesis
      using less.hyps[OF _ _ _ sp, of "j + 1"] False less.prems f
      by (simp add: loop_unfold[OF less.prems(3)] Let_def)
  qed
qed

lemma phase10:
  assumes H: "\<forall>t j. 1 \<le> j \<longrightarrow> (not_ok (srv e t (probe b j)) \<longleftrightarrow> N < j)"
  shows "10 \<le> j \<Longrightarrow> j - 10 \<le> N \<Longrightarrow> same_probes b0 b \<Longrightarrow>
     length_found (probe b (N + 1)) N (findBookLength_loop e 10 j (b0, w))"
proof (induction "nat (N + 1 - j)" arbitrary: j b0 w rule: less_induct)
  case less
  note sp = same_probes_step[OF less.prems(3), of j]
  show ?case
  proof (cases "N < j")
    case True
    then have f: "not_ok (srv e (length (requests w)) (probe b j))"
      using H less.prems by simp
    show ?thesis
      using phase1[OF H _ _ sp, of "j - 9"] less.prems f
      by (simp add: loop_unfold[OF less.prems(3)] Let_def)
  next
    case False
    then have f: "\<not> not_ok (srv e (length (requests w)) (probe b j))"
      using H less.prems(1) by simp
    show ?thesis
      using less.hyps[OF _ _ _ sp, of "j + 10"] False less.prems f
      by (simp add: loop_unfold[OF less.prems(3)] Let_def)
  qed
qed

lemma phase100:
  assumes H: "\<forall>t j. 1 \<le> j \<longrightarrow> (not_ok (srv e t (probe b j)) \<longleftrightarrow> N < j)"
  shows "100 \<le> j \<Longrightarrow> j - 100 \<le> N \<Longrightarrow> same_probes b0 b \<Longrightarrow>
     length_found (probe b (N + 1)) N (findBookLength_loop e 100 j (b0, w))"
proof (induction "nat (N + 1 - j)" arbitrary: j b0 w rule: less_induct)
  case less
  note sp = same_probes_step[OF less.prems(3), of j]
  show ?case
  proof (cases "N < j")
    case True
    then have f: "not_ok (srv e (length (requests w)) (probe b j))"
      using H less.prems by simp
    show ?thesis
      using phase10[OF H _ _ sp, of "j - 90"] less.prems f
      by (simp add: loop_unfold[OF less.prems(3)] Let_def)
  next
    case False
    then have f: "\<not> not_ok (srv e (length (requests w)) (probe b j))"
      using H less.prems(1) by simp
    show ?thesis
      using less.hyps[OF _ _ _ sp, of "j + 100"] False less.prems f
      by (simp add: loop_unfold[OF less.prems(3)] Let_def)
  qed
qed

lemma same_probes_direct_refl: "same_probes_direct b b"
  by (simp add: same_probes_direct_def)

lemma same_probes_direct_step:
  "p \<noteq> [] \<Longrightarrow> same_probes_direct b0 b \<Longrightarrow> same_probes_direct (updateParams_direct p b0) b"
  by (simp add: same_probes_direct_def updateParams_direct_absorb)

lemma loop_direct_unfold:
  assumes "same_probes_direct b0 b"
  shows "findBookLength_loop_direct e delta j (b0, w) =
     (let r = srv e (length (requests w)) (probe_direct b j);
          b1 = updateParams_direct (Itoa j) b0;
          w1 = w\<lparr>requests := requests w @ [(probe_direct b j, r)]\<rparr>
      in if not_ok r then
           if delta = 1 then Some (j - 1, b1, w1)
           else findBookLength_loop_direct e (if delta div 10 < 1 then 1 else delta div 10)
                  (j - delta + (if delta div 10 < 1 then 1 else delta div 10)) (b1, w1)
         else findBookLength_loop_direct e delta (j + delta) (b1, w1))"
proof -
  have u: "updateParams_direct (Itoa j) b0 = updateParams_direct (Itoa j) b"
    using assms by (simp add: same_probes_direct_def Itoa_nonempty)
  show ?thesis
    by (subst findBookLength_loop_direct.simps) (simp add: client_do_def u probe_direct_def Let_def)
qed

lemma phase1_direct:
  assumes H: "\<forall>t j. 1 \<le> j \<longrightarrow> (not_ok (srv e t (probe_direct b j)) \<longleftrightarrow> N < j)"
  shows "1 \<le> j \<Longrightarrow> j - 1 \<le> N \<Longrightarrow> same_probes_direct b0 b \<Longrightarrow>
     length_found (probe_direct b (N + 1)) N (findBookLength_loop_direct e 1 j (b0, w))"
proof (induction "nat (N + 1 - j)" arbitrary: j b0 w rule: less_induct)
  case less
  note sp = same_probes_direct_step[OF Itoa_nonempty less.prems(3), of j]
  show ?case
  proof (cases "N < j")
    case True
    then have "not_ok (srv e (length (requests w)) (probe_direct b j))" "j = N + 1"
      using H less.prems by simp_all
    then show ?thesis
      by (simp add: loop_direct_unfold[OF less.prems(3)] length_found_def Let_def)
  next
    case False
    then have f: "\<not> not_ok (srv e (length (requests w)) (probe_direct b j))"
      using H less.prems(1) by simp
    show ?thesis
      using less.hyps[OF _ _ _ sp, of "j + 1"] False less.prems f
      by (simp add: loop_direct_unfold[OF less.prems(3)] Let_def)
  qed
qed

lemma phase10_direct:
  assumes H: "\<forall>t j. 1 \<le> j \<longrightarrow> (not_ok (srv e t (probe_direct b j)) \<longleftrightarrow> N < j)"
  shows "10 \<le> j \<Longrightarrow> j - 10 \<le> N \<Longrightarrow> same_probes_direct b0 b \<Longrightarrow>
     length_found (probe_direct b (N + 1)) N (findBookLength_loop_direct e 10 j (b0, w))"
proof (induction "nat (N + 1 - j)" arbitrary: j b0 w rule: less_induct)
  case less
  note sp = same_probes_direct_step[OF Itoa_nonempty less.prems(3), of j]
  show ?case
  proof (cases "N < j")
    case True
    then have f: "not_ok (srv e (length (requests w)) (probe_direct b j))"
      using H less.prems by simp
    show ?thesis
      using phase1_direct[OF H _ _ sp, of "j - 9"] less.prems f
      by (simp add: loop_direct_unfold[OF less.prems(3)] Let_def)
  next
    case False
    then have f: "\<not> not_ok (srv e (length (requests w)) (probe_direct b j))"
      using H less.prems(1) by simp
    show ?thesis
      using less.hyps[OF _ _ _ sp, of "j + 10"] False less.prems f
      by (simp add: loop_direct_unfold[OF less.prems(3)] Let_def)
  qed
qed

lemma phase100_direct:
  assumes H: "\<forall>t j. 1 \<le> j \<longrightarrow> (not_ok (srv e t (probe_direct b j)) \<longleftrightarrow> N < j)"
  shows "100 \<le> j \<Longrightarrow> j - 100 \<le> N \<Longrightarrow> same_probes_direct b0 b \<Longrightarrow>
     length_found (probe_direct b (N + 1)) N (findBookLength_loop_direct e 100 j (b0, w))"
proof (induction "nat (N + 1 - j)" arbitrary: j b0 w rule: less_induct)
  case less
  note sp = same_probes_direct_step[OF Itoa_nonempty less.prems(3), of j]
  show ?case
  proof (cases "N < j")
    case True
    then have f: "not_ok (srv e (length (requests w)) (probe_direct b j))"
      using H less.prems by simp
    show ?thesis
      using phase10_direct[OF H _ _ sp, of "j - 90"] less.prems f
      by (simp add: loop_direct_unfold[OF less.prems(3)] Let_def)
  next
    case False
    then have f: "\<not> not_ok (srv e (length (requests w)) (probe_direct b j))"
      using H less.prems(1) by simp
    show ?thesis
      using less.hyps[OF _ _ _ sp, of "j + 100"] False less.prems f
      by (simp add: loop_direct_unfold[OF less.prems(3)] Let_def)
  qed
qed

lemma Itoa_digits_only: "0 \<le> j \<Longrightarrow> list_all is_digit (Itoa j)"
  by (simp add: Itoa_def digits_all)

lemma valid_page_Itoa: "1 \<le> j \<Longrightarrow> valid_page N (Itoa j) \<longleftrightarrow> j \<le> N \<and> j < 2 ^ 63"
  using Itoa_digits_only[of j]
  by (auto simp: valid_page_def Atoi_Itoa is_digit_def)

lemma Atoi_zero: "Atoi ''0'' = Some 0"
  by (simp add: Atoi_def is_digit_def parse_digits_def digit_val_def)

lemma grid_source_probe:
  "1 \<le> j \<Longrightarrow> N < 2 ^ 63 \<Longrightarrow> 0 < R \<Longrightarrow> 0 < C \<Longrightarrow>
   not_ok (grid_source N R C w h t (probe b j)) \<longleftrightarrow> N < j"
  by (auto simp: grid_source_def probe_def formatURL_def updateParams_def set_page_def
      field_int_def Itoa_nonempty Atoi_zero valid_page_Itoa ok_reply_def status_reply_def Let_def)

lemma page_source_probe:
  "1 \<le> j \<Longrightarrow> N < 2 ^ 63 \<Longrightarrow>
   not_ok (page_source N 0 t (probe_direct b j)) \<longleftrightarrow> N < j"
  by (auto simp: page_source_def probe_direct_def formatURL_def updateParams_direct_def set_page_def
      Itoa_nonempty valid_page_Itoa ok_reply_def status_reply_def Let_def)

text \<open>
  Claim C3. Let \<open>N \<ge> 1\<close> and let the remote source answer the length finder's probe of
  page \<open>j\<close> with status 200 exactly when \<open>j \<le> N\<close>, for every \<open>j \<ge> 1\<close> and at every moment.
  Then \<^verbatim>\<open>findBookLength\<close> returns, and it returns \<open>N\<close>, in the tiled and in the direct
  program, whether \<open>N\<close> is below the initial cursor 100 or beyond it. The last request of
  the search is the probe of page \<open>N + 1\<close>, and it failed: the search ends when the step
  is 1 and the probe at the cursor \<open>j\<close> fails, with \<open>j - 1\<close>.
\<close>

theorem findBookLength_exact:
  assumes "1 \<le> N"
    and "\<forall>t j. 1 \<le> j \<longrightarrow> (not_ok (srv e t (probe b j)) \<longleftrightarrow> N < j)"
    and "\<forall>t j. 1 \<le> j \<longrightarrow> (not_ok (srv e' t (probe_direct d j)) \<longleftrightarrow> N < j)"
  shows "(\<exists>b' w'. findBookLength e (b, w) = Some (N, b', w')
            \<and> requests w' \<noteq> [] \<and> fst (last (requests w')) = probe b (N + 1)
            \<and> not_ok (snd (last (requests w'))))
       \<and> (\<exists>d' v'. findBookLength_direct e' (d, v) = Some (N, d', v')
            \<and> requests v' \<noteq> [] \<and> fst (last (requests v')) = probe_direct d (N + 1)
            \<and> not_ok (snd (last (requests v'))))"
  using phase100[OF assms(2) _ _ same_probes_refl, of 100 w]
    phase100_direct[OF assms(3) _ _ same_probes_direct_refl, of 100 v] assms(1)
  by (simp add: findBookLength_def findBookLength_direct_def length_found_def)

theorem findBookLength_exact_witness:
  "(1::int) \<le> 7
   \<and> (\<exists>b' w'. findBookLength (sandbox (grid_source 7 2 2 10 10))
                 (tiled_session ''000123456'' 0 2 2 10 10, blank_world) = Some (7, b', w'))
   \<and> (\<exists>d' v'. findBookLength_direct (sandbox (page_source 7 0))
                 (NewBook_direct ''000123456'' 0 '''', blank_world) = Some (7, d', v'))"
proof -
  have a: "\<forall>t j. 1 \<le> j \<longrightarrow>
        (not_ok (srv (sandbox (grid_source 7 2 2 10 10)) t
                   (probe (tiled_session ''000123456'' 0 2 2 10 10) j)) \<longleftrightarrow> 7 < j)"
    by (simp add: sandbox_def grid_source_probe)
  have b: "\<forall>t j. 1 \<le> j \<longrightarrow>
        (not_ok (srv (sandbox (page_source 7 0)) t
                   (probe_direct (NewBook_direct ''000123456'' 0 '''') j)) \<longleftrightarrow> 7 < j)"
    by (simp add: sandbox_def page_source_probe)
  have c: "(1::int) \<le> 7" by simp
  show ?thesis
    using findBookLength_exact[OF c a b, of blank_world blank_world] by auto
qed

section \<open>The grid prober counts rows and columns\<close>

lemma same_urls_refl: "same_urls b b"
  by (simp add: same_urls_def)

lemma same_urls_request:
  "same_urls b b0 \<Longrightarrow> p \<noteq> [] \<Longrightarrow>
   formatURL (updateParams p (Itoa c) (Itoa r) b) = formatURL (updateParams p (Itoa c) (Itoa r) b0)"
  by (auto simp: same_urls_def formatURL_def updateParams_def set_page_def Itoa_nonempty
      fun_eq_iff Let_def)

lemma same_urls_updateParams: "same_urls b b0 \<Longrightarrow> same_urls (updateParams p c r b) b0"
  by (auto simp: same_urls_def updateParams_def set_page_def Let_def)

lemma same_urls_fields:
  "same_urls b b0 \<Longrightarrow> same_urls (b\<lparr>rows := x\<rparr>) b0"
  "same_urls b b0 \<Longrightarrow> same_urls (b\<lparr>cols := x\<rparr>) b0"
  "same_urls b b0 \<Longrightarrow> same_urls (b\<lparr>imgSize := s\<rparr>) b0"
  "same_urls b b0 \<Longrightarrow> same_urls (b\<lparr>retry := y\<rparr>) b0"
  "same_urls b b0 \<Longrightarrow> same_urls (b\<lparr>book_length := y\<rparr>) b0"
  by (simp_all add: same_urls_def)

lemma updateParams_fields [simp]:
  "rows (updateParams p c r b) = rows b"
  "cols (updateParams p c r b) = cols b"
  "imgSize (updateParams p c r b) = imgSize b"
  "retry (updateParams p c r b) = retry b"
  "path (updateParams p c r b) = path b"
  "book_length (updateParams p c r b) = book_length b"
  "urlTemplate (updateParams p c r b) = urlTemplate b"
  by (simp_all add: updateParams_def Let_def)

lemma sum_int_split: "k < R \<Longrightarrow> sum f {k..<R::int} = f k + sum f {k + 1..<R}"
proof -
  assume "k < R"
  then have "{k..<R} = insert k {k + 1..<R}" by auto
  then show ?thesis by simp
qed

lemma Itoa_zero: "Itoa 0 = ''0''"
  by (simp add: Itoa_def digits.simps digit_char_def)

lemma findRows_loop_unfold:
  assumes "same_urls b b0"
  shows "findRows_loop e (b, w) =
     (let r = srv e (length (requests w)) (tile_request b0 ''1'' (rows b + 1) 0);
          b1 = updateParams ''1'' ''0'' (Itoa (rows b + 1)) (b\<lparr>rows := rows b + 1\<rparr>);
          w1 = w\<lparr>requests := requests w @ [(tile_request b0 ''1'' (rows b + 1) 0, r)]\<rparr>
      in case tile_of r of
           None \<Rightarrow> Some (b1, w1)
         | Some img \<Rightarrow>
             findRows_loop e (b1\<lparr>imgSize := (fst (imgSize b), snd (imgSize b) + Dy img)\<rparr>, w1))"
proof -
  have u: "formatURL (updateParams ''1'' ''0'' (Itoa (rows b + 1)) (b\<lparr>rows := rows b + 1\<rparr>))
      = snd (tile_request b0 ''1'' (rows b + 1) 0)"
    using same_urls_request[OF same_urls_fields(1)[OF assms], of "''1''" 0 "rows b + 1" "rows b + 1"]
    by (simp add: tile_request_def Itoa_zero)
  show ?thesis
    apply (subst findRows_loop.simps)
    apply (simp add: client_do_def u Let_def tile_request_def tile_of_def
        split: reply.splits body.splits option.splits)
    done
qed

lemma findRows_loop_correct:
  assumes ok: "\<forall>t r. 0 \<le> r \<and> r < R \<longrightarrow>
            (\<exists>i. tile_of (srv e t (tile_request b0 ''1'' r 0)) = Some i \<and> Dy i = hs r)"
    and stop: "\<forall>t. tile_of (srv e t (tile_request b0 ''1'' R 0)) = None"
  shows "0 \<le> rows b + 1 \<Longrightarrow> rows b + 1 \<le> R \<Longrightarrow> same_urls b b0 \<Longrightarrow>
     rows_found b0 b w (rows b + 1) R hs (findRows_loop e (b, w))"
proof (induction "nat (R - rows b)" arbitrary: b w rule: less_induct)
  case less
  let ?k = "rows b + 1"
  let ?r = "srv e (length (requests w)) (tile_request b0 ''1'' ?k 0)"
  let ?b1 = "updateParams ''1'' ''0'' (Itoa ?k) (b\<lparr>rows := ?k\<rparr>)"
  let ?w1 = "w\<lparr>requests := requests w @ [(tile_request b0 ''1'' ?k 0, ?r)]\<rparr>"
  have sp: "same_urls ?b1 b0"
    using less.prems(3) by (simp add: same_urls_updateParams same_urls_fields)
  show ?case
  proof (cases "?k = R")
    case True
    then have "tile_of ?r = None" using stop by simp
    then show ?thesis
      using True sp
      by (simp add: findRows_loop_unfold[OF less.prems(3)] rows_found_def Let_def)
  next
    case False
    then have lt: "?k < R" using less.prems by simp
    then obtain i where i: "tile_of ?r = Some i" "Dy i = hs ?k"
      using ok less.prems(1) by blast
    let ?b2 = "?b1\<lparr>imgSize := (fst (imgSize b), snd (imgSize b) + Dy i)\<rparr>"
    have IH: "rows_found b0 ?b2 ?w1 (?k + 1) R hs (findRows_loop e (?b2, ?w1))"
      using less.hyps[of ?b2 ?w1] lt less.prems(1) sp by (simp add: same_urls_fields)
    have s: "sum hs {?k..<R} = hs ?k + sum hs {?k + 1..<R}"
      using lt by (rule sum_int_split)
    have l: "[?k..R] = ?k # [?k + 1..R]"
      using lt by (simp add: upto_rec1)
    show ?thesis
      using IH i s l
      by (simp add: findRows_loop_unfold[OF less.prems(3)] rows_found_def Let_def add.assoc)
  qed
qed

lemma findCols_loop_unfold:
  assumes "same_urls b b0"
  shows "findCols_loop e (b, w) =
     (let r = srv e (length (requests w)) (tile_request b0 ''1'' 0 (cols b + 1));
          b1 = updateParams ''1'' (Itoa (cols b + 1)) ''0'' (b\<lparr>cols := cols b + 1\<rparr>);
          w1 = w\<lparr>requests := requests w @ [(tile_request b0 ''1'' 0 (cols b + 1), r)]\<rparr>
      in case tile_of r of
           None \<Rightarrow> Some (b1, w1)
         | Some img \<Rightarrow>
             findCols_loop e (b1\<lparr>imgSize := (fst (imgSize b) + Dx img, snd (imgSize b))\<rparr>, w1))"
proof -
  have u: "formatURL (updateParams ''1'' (Itoa (cols b + 1)) ''0'' (b\<lparr>cols := cols b + 1\<rparr>))
      = snd (tile_request b0 ''1'' 0 (cols b + 1))"
    using same_urls_request[OF same_urls_fields(2)[OF assms], of "''1''" "cols b + 1" 0 "cols b + 1"]
    by (simp add: tile_request_def Itoa_zero)
  show ?thesis
    apply (subst findCols_loop.simps)
    apply (simp add: client_do_def u Let_def tile_request_def tile_of_def
        split: reply.splits body.splits option.splits)
    done
qed

lemma findCols_loop_correct:
  assumes ok: "\<forall>t c. 0 \<le> c \<and> c < C \<longrightarrow>
            (\<exists>i. tile_of (srv e t (tile_request b0 ''1'' 0 c)) = Some i \<and> Dx i = ws c)"
    and stop: "\<forall>t. tile_of (srv e t (tile_request b0 ''1'' 0 C)) = None"
  shows "0 \<le> cols b + 1 \<Longrightarrow> cols b + 1 \<le> C \<Longrightarrow> same_urls b b0 \<Longrightarrow>
     cols_found b0 b w (cols b + 1) C ws (findCols_loop e (b, w))"
proof (induction "nat (C - cols b)" arbitrary: b w rule: less_induct)
  case less
  let ?k = "cols b + 1"
  let ?r = "srv e (length (requests w)) (tile_request b0 ''1'' 0 ?k)"
  let ?b1 = "updateParams ''1'' (Itoa ?k) ''0'' (b\<lparr>cols := ?k\<rparr>)"
  let ?w1 = "w\<lparr>requests := requests w @ [(tile_request b0 ''1'' 0 ?k, ?r)]\<rparr>"
  have sp: "same_urls ?b1 b0"
    using less.prems(3) by (simp add: same_urls_updateParams same_urls_fields)
  show ?case
  proof (cases "?k = C")
    case True
    then have "tile_of ?r = None" using stop by simp
    then show ?thesis
      using True sp
      by (simp add: findCols_loop_unfold[OF less.prems(3)] cols_found_def Let_def)
  next
    case False
    then have lt: "?k < C" using less.prems by simp
    then obtain i where i: "tile_of ?r = Some i" "Dx i = ws ?k"
      using ok less.prems(1) by blast
    let ?b2 = "?b1\<lparr>imgSize := (fst (imgSize b) + Dx i, snd (imgSize b))\<rparr>"
    have IH: "cols_found b0 ?b2 ?w1 (?k + 1) C ws (findCols_loop e (?b2, ?w1))"
      using less.hyps[of ?b2 ?w1] lt less.prems(1) sp by (simp add: same_urls_fields)
    have s: "sum ws {?k..<C} = ws ?k + sum ws {?k + 1..<C}"
      using lt by (rule sum_int_split)
    have l: "[?k..C] = ?k # [?k + 1..C]"
      using lt by (simp add: upto_rec1)
    show ?thesis
      using IH i s l
      by (simp add: findCols_loop_unfold[OF less.prems(3)] cols_found_def Let_def add.assoc)
  qed
qed

lemma fresh_session_fields [simp]:
  "rows (fresh_session i n d) = - 1"
  "cols (fresh_session i n d) = - 1"
  "imgSize (fresh_session i n d) = (0, 0)"
  "retry (fresh_session i n d) = 2"
  "book_length (fresh_session i n d) = n"
  "path (fresh_session i n d) = i @ ''_temp_image_folder''"
  by (simp_all add: fresh_session_def Let_def)

text \<open>
  Claim C4. Let \<open>R > 0\<close> and \<open>C > 0\<close>, and let the remote source answer the probe of row
  \<open>r\<close> at column 0 with a picture of height \<open>hs r\<close> for \<open>0 \<le> r < R\<close> and fail at row \<open>R\<close>,
  and answer the probe of column \<open>c\<close> at row 0 with a picture of width \<open>ws c\<close> for
  \<open>0 \<le> c < C\<close> and fail at column \<open>C\<close>. Then \<^verbatim>\<open>NewBook\<close> returns a session with
  \<open>rows = R\<close>, \<open>cols = C\<close>, page height the sum of the probed rows' heights and page width
  the sum of the probed columns' widths. The requests it issued are the row probes
  \<open>0, 1, \<dots>, R\<close> followed by the column probes \<open>0, 1, \<dots>, C\<close>, each once: the first
  failure ends a dimension and nothing is retried.
\<close>

theorem grid_prober_exact:
  assumes "0 < R" and "0 < C"
    and "\<forall>t r. 0 \<le> r \<and> r < R \<longrightarrow>
           (\<exists>i. tile_of (srv e t (tile_request (fresh_session bookID len docType) ''1'' r 0)) = Some i
                \<and> Dy i = hs r)"
    and "\<forall>t. tile_of (srv e t (tile_request (fresh_session bookID len docType) ''1'' R 0)) = None"
    and "\<forall>t c. 0 \<le> c \<and> c < C \<longrightarrow>
           (\<exists>i. tile_of (srv e t (tile_request (fresh_session bookID len docType) ''1'' 0 c)) = Some i
                \<and> Dx i = ws c)"
    and "\<forall>t. tile_of (srv e t (tile_request (fresh_session bookID len docType) ''1'' 0 C)) = None"
  shows "\<exists>b' w'. NewBook e bookID len docType w = Some (b', w')
           \<and> rows b' = R \<and> cols b' = C
           \<and> imgSize b' = (sum ws {0..<C}, sum hs {0..<R})
           \<and> map fst (requests w') = map fst (requests w)
                @ map (\<lambda>r. tile_request (fresh_session bookID len docType) ''1'' r 0) [0..R]
                @ map (\<lambda>c. tile_request (fresh_session bookID len docType) ''1'' 0 c) [0..C]"
proof -
  let ?b0 = "fresh_session bookID len docType"
  have "rows_found ?b0 ?b0 w 0 R hs (findRows_loop e (?b0, w))"
    using findRows_loop_correct[OF assms(3,4), of ?b0 w] assms(1) by (simp add: same_urls_refl)
  then obtain b1 w1 where 1: "findRows_loop e (?b0, w) = Some (b1, w1)" "rows b1 = R"
    "cols b1 = - 1" "imgSize b1 = (0, sum hs {0..<R})" "same_urls b1 ?b0"
    "map fst (requests w1) = map fst (requests w) @ map (\<lambda>r. tile_request ?b0 ''1'' r 0) [0..R]"
    by (auto simp: rows_found_def)
  have "cols_found ?b0 b1 w1 0 C ws (findCols_loop e (b1, w1))"
    using findCols_loop_correct[OF assms(5,6), of b1 w1] assms(2) 1 by simp
  then obtain b2 w2 where 2: "findCols_loop e (b1, w1) = Some (b2, w2)" "cols b2 = C"
    "rows b2 = R" "imgSize b2 = (sum ws {0..<C}, sum hs {0..<R})"
    "map fst (requests w2) = map fst (requests w1) @ map (\<lambda>c. tile_request ?b0 ''1'' 0 c) [0..C]"
    using 1 by (auto simp: cols_found_def)
  show ?thesis
    using 1 2 by (simp add: NewBook_def findRowsColsAndImgSize_def)
qed

lemma valid_page_numeral:
  "valid_page N ''1'' \<longleftrightarrow> 1 \<le> N"
  "valid_page N ''C1''" "valid_page N ''C3''"
  by (simp_all add: valid_page_def Atoi_def is_digit_def parse_digits_def digit_val_def)

lemma field_int_tile_request:
  "p \<noteq> [] \<Longrightarrow> snd (snd (tile_request b p r c)) ''page_nr'' = Some p"
  "0 \<le> r \<Longrightarrow> field_int (tile_request b p r c) ''row'' = (if r < 2 ^ 63 then Some r else None)"
  "0 \<le> c \<Longrightarrow> field_int (tile_request b p r c) ''col'' = (if c < 2 ^ 63 then Some c else None)"
  by (simp_all add: tile_request_def formatURL_def updateParams_def set_page_def field_int_def
      Itoa_nonempty Atoi_Itoa Let_def)

lemma tile_of_replies [simp]:
  "tile_of (ok_reply i) = Some i"
  "tile_of (status_reply n) = None"
  by (simp_all add: tile_of_def ok_reply_def status_reply_def)

lemma grid_source_tile:
  assumes "valid_page N p" "p \<noteq> []" "0 \<le> r" "0 \<le> c" "R < 2 ^ 63" "C < 2 ^ 63"
  shows "grid_source N R C w h t (tile_request b p r c) =
           (if r < R \<and> c < C then ok_reply (tile w h r c) else status_reply 404)"
  using assms by (auto simp: grid_source_def field_int_tile_request)

theorem grid_prober_exact_witness:
  "(0::int) < 2 \<and> (0::int) < 3
   \<and> (\<exists>b' w'. NewBook (sandbox (grid_source 9 2 3 10 20)) ''000123456'' 0 '''' blank_world
                  = Some (b', w')
         \<and> rows b' = 2 \<and> cols b' = 3 \<and> imgSize b' = (30, 40)
         \<and> length (requests w') = 7)"
proof -
  let ?e = "sandbox (grid_source 9 2 3 10 20)"
  let ?b = "fresh_session ''000123456'' 0 ''''"
  have g: "\<And>t r c. 0 \<le> r \<Longrightarrow> 0 \<le> c \<Longrightarrow> srv ?e t (tile_request ?b ''1'' r c)
        = (if r < 2 \<and> c < 3 then ok_reply (tile 10 20 r c) else status_reply 404)"
    by (simp add: sandbox_def grid_source_tile valid_page_numeral)
  have a: "\<forall>t r. 0 \<le> r \<and> r < 2 \<longrightarrow>
      (\<exists>i. tile_of (srv ?e t (tile_request ?b ''1'' r 0)) = Some i \<and> Dy i = (\<lambda>r. 20) r)"
    by (simp add: g tile_def)
  have b: "\<forall>t. tile_of (srv ?e t (tile_request ?b ''1'' 2 0)) = None"
    by (simp add: g)
  have c: "\<forall>t c. 0 \<le> c \<and> c < 3 \<longrightarrow>
      (\<exists>i. tile_of (srv ?e t (tile_request ?b ''1'' 0 c)) = Some i \<and> Dx i = (\<lambda>c. 10) c)"
    by (simp add: g tile_def)
  have d: "\<forall>t. tile_of (srv ?e t (tile_request ?b ''1'' 0 3)) = None"
    by (simp add: g)
  obtain b' w' where r: "NewBook ?e ''000123456'' 0 '''' blank_world = Some (b', w')"
    "rows b' = 2" "cols b' = 3" "imgSize b' = (30, 40)"
    "map fst (requests w') = map fst (requests blank_world)
                @ map (\<lambda>r. tile_request ?b ''1'' r 0) [0..2]
                @ map (\<lambda>c. tile_request ?b ''1'' 0 c) [0..3]"
    using grid_prober_exact[of 2 3 ?e "''000123456''" 0 "''''" "\<lambda>r. 20" "\<lambda>c. 10" blank_world, OF _ _ a b c d]
    by auto
  have "length (requests w') = length (map fst (requests w'))" by simp
  also have "\<dots> = 7" unfolding r(5) by (simp add: blank_world_def)
  finally show ?thesis using r by simp
qed

section \<open>Tiled assembly places every tile\<close>

lemma not_ok_tile_of: "not_ok r \<Longrightarrow> tile_of r = None"
  by (cases r) (simp_all add: tile_of_def)

lemma downloadPage_cols_unfold:
  assumes "same_urls b b0" "p \<noteq> []"
  shows "downloadPage_cols e p row col loc (b, w) =
     (if col < cols b then
        (let r = srv e (length (requests w)) (tile_request b0 p row col);
             b1 = updateParams p (Itoa col) (Itoa row) b;
             w1 = w\<lparr>requests := requests w @ [(tile_request b0 p row col, r)]\<rparr>
         in if not_ok r then
              (if unauthorized r then Some (Inl (Exit1, b1, w1))
               else if retry b \<ge> 0 then
                 downloadPage_cols e p row col loc (b1\<lparr>retry := retry b - 1\<rparr>, w1)
               else downloadPage_cols e p row (col + 1) loc (b1, w1))
            else
              (case tile_of r of
                 None \<Rightarrow> downloadPage_cols e p row col loc (b1, w1)
               | Some i \<Rightarrow> downloadPage_cols e p row (col + 1) (paste loc i col (cols b)) (b1, w1)))
      else Some (Inr (loc, b, w)))"
proof -
  have u: "formatURL (updateParams p (Itoa col) (Itoa row) b) = snd (tile_request b0 p row col)"
    using same_urls_request[OF assms] by (simp add: tile_request_def)
  show ?thesis
    apply (subst downloadPage_cols.simps)
    apply (cases "srv e (length (requests w)) (tile_request b0 p row col)")
     apply (simp_all add: client_do_def u Let_def tile_request_def tile_of_def paste_def
        split: body.splits option.splits)
    done
qed

lemma step_le: "(a::int) + 1 \<le> b \<Longrightarrow> 0 \<le> t \<Longrightarrow> a * t + t \<le> b * t"
proof -
  assume "a + 1 \<le> b" "0 \<le> t"
  then have "(a + 1) * t \<le> b * t" by (rule mult_right_mono)
  then show ?thesis by (simp add: algebra_simps)
qed

lemma painted_next_row:
  assumes "painted T tw th R C img row C"
  shows "painted T tw th R C img (row + 1) 0"
  unfolding painted_def
proof (intro conjI allI impI)
  show "bounds img = (0, 0, C * tw, R * th)" using assms by (simp add: painted_def)
next
  fix r c x y
  assume a: "0 \<le> r \<and> 0 \<le> c \<and> c < C \<and> (r < row + 1 \<or> r = row + 1 \<and> c < 0)
      \<and> 0 \<le> x \<and> x < tw \<and> 0 \<le> y \<and> y < th"
  then have "r < row \<or> (r = row \<and> c < C)" by auto
  then show "pixels img (c * tw + x) (r * th + y) = T r c x y"
    using assms a unfolding painted_def by blast
qed

lemma painted_paste:
  assumes P: "painted T tw th R C img row col"
    and rc: "0 \<le> row" "row < R" "0 \<le> col" "col < C" and t: "0 \<le> tw" "0 \<le> th"
    and i: "Dx i = tw" "Dy i = th" "At i = T row col"
  shows "painted T tw th R C
           (draw_Draw img (image_Rect (col * tw) (row * th) (col * tw + Dx i) (row * th + Dy i)) i)
           row (col + 1)"
proof -
  have rect: "image_Rect (col * tw) (row * th) (col * tw + tw) (row * th + th)
      = (col * tw, row * th, col * tw + tw, row * th + th)"
    using t by (simp add: image_Rect_def)
  have b: "bounds img = (0, 0, C * tw, R * th)" using P by (simp add: painted_def)
  have cw: "col * tw + tw \<le> C * tw" using rc t by (simp add: step_le)
  have rh: "row * th + th \<le> R * th" using rc t by (simp add: step_le)
  have c0: "0 \<le> col * tw" "0 \<le> row * th" using rc t by simp_all
  show ?thesis
    unfolding painted_def
  proof (intro conjI allI impI)
    show "bounds (draw_Draw img (image_Rect (col * tw) (row * th) (col * tw + Dx i) (row * th + Dy i)) i)
        = (0, 0, C * tw, R * th)"
      using b by (simp add: draw_Draw_def Let_def)
  next
    fix r c x y
    assume a: "0 \<le> r \<and> 0 \<le> c \<and> c < C \<and> (r < row \<or> r = row \<and> c < col + 1)
        \<and> 0 \<le> x \<and> x < tw \<and> 0 \<le> y \<and> y < th"
    show "pixels (draw_Draw img (image_Rect (col * tw) (row * th) (col * tw + Dx i) (row * th + Dy i)) i)
            (c * tw + x) (r * th + y) = T r c x y"
    proof (cases "r = row \<and> c = col")
      case True
      then show ?thesis
        using a b cw rh c0 by (simp add: i rect draw_Draw_def Let_def)
    next
      case False
      then have early: "r < row \<or> (r = row \<and> c < col)" using a by auto
      then have old: "pixels img (c * tw + x) (r * th + y) = T r c x y"
        using P a by (simp add: painted_def)
      have out: "r * th + y < row * th \<or> c * tw + x < col * tw"
      proof (cases "r < row")
        case True
        then have "r * th + th \<le> row * th" using t by (simp add: step_le)
        then show ?thesis using a by simp
      next
        case False
        then have "c + 1 \<le> col" using early by simp
        then have "c * tw + tw \<le> col * tw" using t by (simp add: step_le)
        then show ?thesis using a by simp
      qed
      then show ?thesis
        using old by (auto simp: i rect draw_Draw_def Let_def)
    qed
  qed
qed

lemma kept_refl: "kept b b"
  by (simp add: kept_def)

lemma kept_updateParams: "kept b (updateParams p c r b)"
  by (simp add: kept_def)

lemma kept_trans: "kept a b \<Longrightarrow> kept b c \<Longrightarrow> kept a c"
  by (simp add: kept_def)

lemma cols_loop_paints:
  assumes tiles: "\<forall>t r c. 0 \<le> r \<and> r < R \<and> 0 \<le> c \<and> c < C \<longrightarrow>
        (\<exists>i. tile_of (srv e t (tile_request b0 p r c)) = Some i
             \<and> Dx i = tw \<and> Dy i = th \<and> At i = T r c)"
    and p: "p \<noteq> []" and t: "0 \<le> tw" "0 \<le> th" and row: "0 \<le> row" "row < R"
  shows "0 \<le> col \<Longrightarrow> col < C \<Longrightarrow> same_urls b b0 \<Longrightarrow> cols b = C \<Longrightarrow>
     painted T tw th R C img row col \<Longrightarrow>
     row_painted T tw th R C b0 p b w row [col..C - 1]
       (downloadPage_cols e p row col (img, col * tw, row * th) (b, w))"
proof (induction "nat (C - col)" arbitrary: col b w img rule: less_induct)
  case less
  let ?q = "tile_request b0 p row col"
  let ?r = "srv e (length (requests w)) ?q"
  let ?b1 = "updateParams p (Itoa col) (Itoa row) b"
  let ?w1 = "w\<lparr>requests := requests w @ [(?q, ?r)]\<rparr>"
  obtain i where i: "tile_of ?r = Some i" "Dx i = tw" "Dy i = th" "At i = T row col"
    using tiles row less.prems(1,2) by blast
  have ok: "\<not> not_ok ?r" using i(1) not_ok_tile_of by fastforce
  let ?img1 = "draw_Draw img (image_Rect (col * tw) (row * th) (col * tw + Dx i) (row * th + Dy i)) i"
  have P1: "painted T tw th R C ?img1 row (col + 1)"
    using painted_paste[OF less.prems(5) row less.prems(1,2) t i(2,3,4)] .
  have s1: "same_urls ?b1 b0" using less.prems(3) by (rule same_urls_updateParams)
  have l: "[col..C - 1] = col # [col + 1..C - 1]"
    using less.prems(2) by (simp add: upto_rec1)
  have step: "downloadPage_cols e p row col (img, col * tw, row * th) (b, w)
      = downloadPage_cols e p row (col + 1) (paste (img, col * tw, row * th) i col C) (?b1, ?w1)"
    using less.prems(2,4) ok i(1)
    by (simp add: downloadPage_cols_unfold[OF less.prems(3) p] Let_def)
  show ?case
  proof (cases "col = C - 1")
    case True
    have pl: "paste (img, col * tw, row * th) i col C = (?img1, 0, (row + 1) * th)"
      using True i by (simp add: paste_def Let_def algebra_simps)
    have fin: "downloadPage_cols e p row (col + 1) (?img1, 0, (row + 1) * th) (?b1, ?w1)
        = Some (Inr ((?img1, 0, (row + 1) * th), ?b1, ?w1))"
    proof -
      have "\<not> col + 1 < cols ?b1" using True less.prems(4) by simp
      then show ?thesis
        by (subst downloadPage_cols_unfold[OF s1 p]) (simp only: if_False)
    qed
    have P2: "painted T tw th R C ?img1 (row + 1) 0"
      using P1 True painted_next_row by simp
    show ?thesis
      unfolding step pl fin row_painted_def
      using P2 s1 True by (simp add: kept_updateParams)
  next
    case False
    then have lt: "col + 1 < C" using less.prems(2) by simp
    have pl: "paste (img, col * tw, row * th) i col C = (?img1, (col + 1) * tw, row * th)"
      using False i by (simp add: paste_def Let_def algebra_simps)
    have IH: "row_painted T tw th R C b0 p ?b1 ?w1 row [col + 1..C - 1]
        (downloadPage_cols e p row (col + 1) (?img1, (col + 1) * tw, row * th) (?b1, ?w1))"
      using less.hyps[of "col + 1" ?b1 ?img1 ?w1] lt less.prems(1,4) s1 P1 by simp
    show ?thesis
      unfolding step pl
      using IH kept_trans[OF kept_updateParams[of b p "Itoa col" "Itoa row"]]
      by (auto simp: row_painted_def l)
  qed
qed

lemma rows_loop_paints:
  assumes tiles: "\<forall>t r c. 0 \<le> r \<and> r < R \<and> 0 \<le> c \<and> c < C \<longrightarrow>
        (\<exists>i. tile_of (srv e t (tile_request b0 p r c)) = Some i
             \<and> Dx i = tw \<and> Dy i = th \<and> At i = T r c)"
    and p: "p \<noteq> []" and t: "0 \<le> tw" "0 \<le> th" and C: "0 < C"
  shows "0 \<le> row \<Longrightarrow> row \<le> R \<Longrightarrow> same_urls b b0 \<Longrightarrow> cols b = C \<Longrightarrow> rows b = R \<Longrightarrow>
     painted T tw th R C img row 0 \<Longrightarrow>
     page_painted T tw th R C b0 p b w row
       (downloadPage_rows e p row (img, 0, row * th) (b, w))"
proof (induction "nat (R - row)" arbitrary: row b w img rule: less_induct)
  case less
  show ?case
  proof (cases "row = R")
    case True
    then have "downloadPage_rows e p row (img, 0, row * th) (b, w)
        = Some (Inr ((img, 0, R * th), b, w))"
      using less.prems(5) by (subst downloadPage_rows.simps) simp
    then show ?thesis
      using True less.prems(3,6)
      by (simp add: page_painted_def kept_refl grid_requests_def)
  next
    case False
    then have lt: "row < R" using less.prems(2) by simp
    have "row_painted T tw th R C b0 p b w row [0..C - 1]
        (downloadPage_cols e p row 0 (img, 0 * tw, row * th) (b, w))"
      using cols_loop_paints[OF tiles p t less.prems(1) lt _ C less.prems(3,4)] less.prems(6)
      by simp
    then obtain img1 b1 w1 where 1:
      "downloadPage_cols e p row 0 (img, 0, row * th) (b, w)
         = Some (Inr ((img1, 0, (row + 1) * th), b1, w1))"
      "painted T tw th R C img1 (row + 1) 0" "same_urls b1 b0" "kept b b1" "retry b1 = retry b"
      "files w1 = files w" "pdf w1 = pdf w" "assembled w1 = assembled w"
      "map fst (requests w1) = map fst (requests w) @ map (\<lambda>c. tile_request b0 p row c) [0..C - 1]"
      by (auto simp: row_painted_def)
    have k: "cols b1 = C" "rows b1 = R" using 1(4) less.prems(4,5) by (simp_all add: kept_def)
    have IH: "page_painted T tw th R C b0 p b1 w1 (row + 1)
        (downloadPage_rows e p (row + 1) (img1, 0, (row + 1) * th) (b1, w1))"
      using less.hyps[of "row + 1" b1 img1 w1] lt less.prems(1) 1(2,3) k by simp
    have l: "[row..R - 1] = row # [row + 1..R - 1]"
      using lt by (simp add: upto_rec1)
    have step: "downloadPage_rows e p row (img, 0, row * th) (b, w)
        = downloadPage_rows e p (row + 1) (img1, 0, (row + 1) * th) (b1, w1)"
      using lt less.prems(5) 1(1) by (subst downloadPage_rows.simps) simp
    show ?thesis
      unfolding step
      using IH 1(4,5,6,7,8,9) kept_trans[OF 1(4)]
      by (auto simp: page_painted_def grid_requests_def l)
  qed
qed

text \<open>
  Claim C5. Let the session have \<open>rows = R > 0\<close>, \<open>cols = C > 0\<close> and page size
  \<open>(C * tw, R * th)\<close>, and let every tile request of the page be answered with a picture of
  size \<open>tw \<times> th\<close>, tile \<open>(r, c)\<close> showing \<open>T r c\<close>. Then the loops of \<^verbatim>\<open>downloadPage\<close> return
  with a raster \<open>img\<close> with bounds \<open>(0, 0, C * tw, R * th)\<close> in which pixel \<open>(x, y)\<close> of tile
  \<open>(r, c)\<close> stands at \<open>(c * tw + x, r * th + y)\<close>, and \<^verbatim>\<open>downloadPage\<close> returns after handing
  exactly this raster to \<^verbatim>\<open>jpeg.Encode\<close>: the page file holds what the encoder left, which
  is the encoded raster when both sides are below \<open>65536\<close> pixels and the file can be
  written. The requests issued are the tiles in row-major order, rows outside and columns
  inside, each once, and the retry budget is untouched. Every row that starts with the
  offsets \<open>(0, r * th)\<close> ends with the offsets \<open>(0, (r + 1) * th)\<close>: the horizontal offset is
  back at zero and the vertical offset has advanced by one tile height once the last
  column of the row is done.
\<close>

theorem page_assembly_exact:
  assumes "0 < R" and "0 < C" and "0 \<le> tw" and "0 \<le> th" and "pageNr \<noteq> []"
    and "rows b = R" and "cols b = C" and "imgSize b = (C * tw, R * th)"
    and "\<forall>t r c. 0 \<le> r \<and> r < R \<and> 0 \<le> c \<and> c < C \<longrightarrow>
           (\<exists>i. tile_of (srv e t (tile_request b pageNr r c)) = Some i
                \<and> Dx i = tw \<and> Dy i = th \<and> At i = T r c)"
    and "create_ok e (Join (path b) (pageNr @ ''.jpg''))"
  shows "\<exists>b' w1 img.
           downloadPage_rows e pageNr 0 (NewRGBA (image_Rect 0 0 (C * tw) (R * th)), 0, 0)
             (b, w\<lparr>assembled := assembled w @ [(pageNr, retry b, R, C, (C * tw, R * th))]\<rparr>)
             = Some (Inr ((img, 0, R * th), b', w1))
         \<and> downloadPage e pageNr (b, w)
             = Some (Inr (b', w1\<lparr>files := (files w1)(Join (path b) (pageNr @ ''.jpg'') \<mapsto>
                            jpeg_Encode e (Join (path b) (pageNr @ ''.jpg'')) img)\<rparr>))
         \<and> (C * tw < 65536 \<and> R * th < 65536 \<and> write_ok e (Join (path b) (pageNr @ ''.jpg''))
               \<longrightarrow> jpeg_Encode e (Join (path b) (pageNr @ ''.jpg'')) img = Jpeg img)
         \<and> bounds img = (0, 0, C * tw, R * th)
         \<and> (\<forall>r c x y. 0 \<le> r \<and> r < R \<and> 0 \<le> c \<and> c < C \<and> 0 \<le> x \<and> x < tw \<and> 0 \<le> y \<and> y < th
               \<longrightarrow> pixels img (c * tw + x) (r * th + y) = T r c x y)
         \<and> map fst (requests w1) = map fst (requests w) @ grid_requests b pageNr 0 R C
         \<and> retry b' = retry b
         \<and> (\<forall>r v i. 0 \<le> r \<and> r < R \<and> painted T tw th R C i r 0 \<longrightarrow>
               (\<exists>i' b1 v1. downloadPage_cols e pageNr r 0 (i, 0, r * th) (b, v)
                               = Some (Inr ((i', 0, (r + 1) * th), b1, v1))))"
proof -
  let ?w0 = "w\<lparr>assembled := assembled w @ [(pageNr, retry b, rows b, cols b, imgSize b)]\<rparr>"
  let ?img0 = "NewRGBA (image_Rect 0 0 (C * tw) (R * th))"
  let ?out = "Join (path b) (pageNr @ ''.jpg'')"
  have nn: "0 \<le> C * tw" "0 \<le> R * th" using assms(1-4) by simp_all
  have P0: "painted T tw th R C ?img0 0 0"
    using nn by (auto simp: painted_def NewRGBA_def image_Rect_def)
  have "page_painted T tw th R C b pageNr b ?w0 0
      (downloadPage_rows e pageNr 0 (?img0, 0, 0 * th) (b, ?w0))"
    using rows_loop_paints[OF assms(9,5,3,4,2) _ _ same_urls_refl assms(7,6) P0] assms(1)
    by simp
  then obtain img1 b1 w1 where 1:
    "downloadPage_rows e pageNr 0 (?img0, 0, 0) (b, ?w0) = Some (Inr ((img1, 0, R * th), b1, w1))"
    "painted T tw th R C img1 R 0" "kept b b1" "retry b1 = retry b"
    "map fst (requests w1) = map fst (requests w) @ grid_requests b pageNr 0 R C"
    by (auto simp: page_painted_def)
  have pth: "path b1 = path b" using 1(3) by (simp add: kept_def)
  have rows1: "downloadPage_rows e pageNr 0 (?img0, 0, 0)
      (b, w\<lparr>assembled := assembled w @ [(pageNr, retry b, R, C, (C * tw, R * th))]\<rparr>)
      = Some (Inr ((img1, 0, R * th), b1, w1))"
    using 1(1) assms(6,7,8) by simp
  have res: "downloadPage e pageNr (b, w)
      = Some (Inr (b1, w1\<lparr>files := (files w1)(?out \<mapsto> jpeg_Encode e ?out img1)\<rparr>))"
    using 1(1) assms(8,10) pth by (simp add: downloadPage_def Let_def)
  have bd: "bounds img1 = (0, 0, C * tw, R * th)"
    using 1(2) by (simp add: painted_def)
  have enc: "C * tw < 65536 \<and> R * th < 65536 \<and> write_ok e ?out
      \<longrightarrow> jpeg_Encode e ?out img1 = Jpeg img1"
    by (simp add: jpeg_Encode_def Let_def bd)
  have px: "\<forall>r c x y. 0 \<le> r \<and> r < R \<and> 0 \<le> c \<and> c < C \<and> 0 \<le> x \<and> x < tw \<and> 0 \<le> y \<and> y < th
               \<longrightarrow> pixels img1 (c * tw + x) (r * th + y) = T r c x y"
    using 1(2) unfolding painted_def by blast
  have rowsfact: "\<forall>r v i. 0 \<le> r \<and> r < R \<and> painted T tw th R C i r 0 \<longrightarrow>
               (\<exists>i' b1 v1. downloadPage_cols e pageNr r 0 (i, 0, r * th) (b, v)
                               = Some (Inr ((i', 0, (r + 1) * th), b1, v1)))"
  proof (intro allI impI)
    fix r v i
    assume a: "0 \<le> r \<and> r < R \<and> painted T tw th R C i r 0"
    have "row_painted T tw th R C b pageNr b v r [0..C - 1]
        (downloadPage_cols e pageNr r 0 (i, 0 * tw, r * th) (b, v))"
      using cols_loop_paints[OF assms(9,5,3,4) _ _ _ assms(2) same_urls_refl assms(7)] a by simp
    then show "\<exists>i' b1 v1. downloadPage_cols e pageNr r 0 (i, 0, r * th) (b, v)
                               = Some (Inr ((i', 0, (r + 1) * th), b1, v1))"
      by (auto simp: row_painted_def)
  qed
  show ?thesis
    by (intro exI conjI) (rule rows1 res enc bd px 1(5) 1(4) rowsfact)+
qed

lemma tiled_session_fields [simp]:
  "rows (tiled_session i n R C w h) = R"
  "cols (tiled_session i n R C w h) = C"
  "imgSize (tiled_session i n R C w h) = (C * w, R * h)"
  "retry (tiled_session i n R C w h) = 2"
  "book_length (tiled_session i n R C w h) = n"
  "path (tiled_session i n R C w h) = i @ ''_temp_image_folder''"
  by (simp_all add: tiled_session_def)

theorem page_assembly_exact_witness:
  "(0::int) < 2 \<and> (0::int) < 3
   \<and> (\<exists>b' w' img.
         downloadPage (sandbox (grid_source 9 2 3 10 20)) ''C1''
           (tiled_session ''000123456'' 9 2 3 10 20, blank_world) = Some (Inr (b', w'))
       \<and> files w' ''000123456_temp_image_folder/C1.jpg'' = Some (Jpeg img)
       \<and> bounds img = (0, 0, 30, 40)
       \<and> pixels img 25 30 = 103
       \<and> length (requests w') = 6)"
proof -
  let ?e = "sandbox (grid_source 9 2 3 10 20)"
  let ?b = "tiled_session ''000123456'' 9 2 3 10 20"
  let ?T = "\<lambda>r c. At (tile 10 20 r c)"
  let ?out = "Join (path ?b) (''C1'' @ ''.jpg'')"
  have tiles: "\<forall>t r c. 0 \<le> r \<and> r < 2 \<and> 0 \<le> c \<and> c < 3 \<longrightarrow>
      (\<exists>i. tile_of (srv ?e t (tile_request ?b ''C1'' r c)) = Some i
           \<and> Dx i = 10 \<and> Dy i = 20 \<and> At i = ?T r c)"
    by (simp add: sandbox_def grid_source_tile valid_page_numeral tile_def)
  have c: "create_ok ?e ?out"
    by (simp add: sandbox_def)
  have wr: "write_ok ?e ?out"
    by (simp add: sandbox_def)
  obtain b' w1 img where r:
    "downloadPage ?e ''C1'' (?b, blank_world)
       = Some (Inr (b', w1\<lparr>files := (files w1)(?out \<mapsto> jpeg_Encode ?e ?out img)\<rparr>))"
    "(3::int) * 10 < 65536 \<and> (2::int) * 20 < 65536 \<and> write_ok ?e ?out
       \<longrightarrow> jpeg_Encode ?e ?out img = Jpeg img"
    "bounds img = (0, 0, 3 * 10, 2 * 20)"
    "\<forall>r c x y. 0 \<le> r \<and> r < 2 \<and> 0 \<le> c \<and> c < 3 \<and> 0 \<le> x \<and> x < 10 \<and> 0 \<le> y \<and> y < 20
        \<longrightarrow> pixels img (c * 10 + x) (r * 20 + y) = ?T r c x y"
    "map fst (requests w1) = map fst (requests blank_world) @ grid_requests ?b ''C1'' 0 2 3"
    using page_assembly_exact[of 2 3 10 20 "''C1''" ?b ?e ?T blank_world, OF _ _ _ _ _ _ _ _ tiles c]
    by auto
  have en: "jpeg_Encode ?e ?out img = Jpeg img"
    using r(2) wr by simp
  have px: "pixels img 25 30 = 103"
    using r(4)[rule_format, of 1 2 5 10] by (simp add: tile_def)
  have "length (requests w1) = length (map fst (requests w1))" by simp
  also have "\<dots> = 6" unfolding r(5) by (simp add: blank_world_def grid_requests_def upto.simps)
  finally have len: "length (requests w1) = 6" .
  let ?w' = "w1\<lparr>files := (files w1)(?out \<mapsto> Jpeg img)\<rparr>"
  have d: "downloadPage ?e ''C1'' (?b, blank_world) = Some (Inr (b', ?w'))"
    using r(1) en by simp
  have f: "files ?w' ''000123456_temp_image_folder/C1.jpg'' = Some (Jpeg img)"
    by (simp add: Join_def)
  have b30: "bounds img = (0, 0, 30, 40)" using r(3) by simp
  have l: "length (requests ?w') = 6" using len by simp
  have "\<exists>b' w' img.
         downloadPage ?e ''C1'' (?b, blank_world) = Some (Inr (b', w'))
       \<and> files w' ''000123456_temp_image_folder/C1.jpg'' = Some (Jpeg img)
       \<and> bounds img = (0, 0, 30, 40)
       \<and> pixels img 25 30 = 103
       \<and> length (requests w') = 6"
    using d f b30 px l by blast
  then show ?thesis by simp
qed

section \<open>An undecodable tile is fetched forever\<close>

lemma undecodable_never_returns:
  assumes g: "\<forall>t r c. tile_of (srv e t (tile_request b0 p r c)) = None
                \<and> \<not> not_ok (srv e t (tile_request b0 p r c))"
    and p: "p \<noteq> []"
    and run: "downloadPage_cols e p row col loc bw = Some y"
  shows "\<not> (col < cols (fst bw) \<and> same_urls (fst bw) b0)"
proof -
  let ?P = "\<lambda>e' p' (row::int) col (loc::raster \<times> int \<times> int) (bw::TBook \<times> world)
      (y::(stop \<times> TBook \<times> world) + ((raster \<times> int \<times> int) \<times> TBook \<times> world)).
      \<not> (e' = e \<and> p' = p \<and> col < cols (fst bw) \<and> same_urls (fst bw) b0)"
  have "?P e p row col loc bw y"
  proof (rule downloadPage_cols.raw_induct[where P = ?P, OF _ run], goal_cases)
    case (1 f e' p' row col loc bw y)
    note IH = 1(1) and F = 1(2)
    show ?case
    proof
      assume a: "e' = e \<and> p' = p \<and> col < cols (fst bw) \<and> same_urls (fst bw) b0"
      obtain b w where bw: "bw = (b, w)" by (cases bw)
      let ?q = "tile_request b0 p row col"
      let ?r = "srv e (length (requests w)) ?q"
      let ?b1 = "updateParams p (Itoa col) (Itoa row) b"
      let ?w1 = "w\<lparr>requests := requests w @ [(?q, ?r)]\<rparr>"
      have u: "formatURL ?b1 = snd ?q"
        using same_urls_request[of b b0 p col row] a p bw by (simp add: tile_request_def)
      have r: "tile_of ?r = None" "\<not> not_ok ?r" using g by simp_all
      have "f e p row col loc (?b1, ?w1) = Some y"
        using F a bw r
        apply (cases ?r)
         apply (simp_all add: client_do_def u Let_def tile_request_def tile_of_def
            split: body.splits option.splits if_splits)
        done
      then have "\<not> (col < cols (fst (?b1, ?w1)) \<and> same_urls (fst (?b1, ?w1)) b0)"
        using IH by blast
      then show False
        using a bw by (simp add: same_urls_updateParams)
    qed
  qed
  then show ?thesis by simp
qed

lemma NewBook_session:
  assumes "0 < R" and "0 < C"
    and "\<forall>t r. 0 \<le> r \<and> r < R \<longrightarrow>
           (\<exists>i. tile_of (srv e t (tile_request (fresh_session bookID len docType) ''1'' r 0)) = Some i
                \<and> Dy i = hs r)"
    and "\<forall>t. tile_of (srv e t (tile_request (fresh_session bookID len docType) ''1'' R 0)) = None"
    and "\<forall>t c. 0 \<le> c \<and> c < C \<longrightarrow>
           (\<exists>i. tile_of (srv e t (tile_request (fresh_session bookID len docType) ''1'' 0 c)) = Some i
                \<and> Dx i = ws c)"
    and "\<forall>t. tile_of (srv e t (tile_request (fresh_session bookID len docType) ''1'' 0 C)) = None"
  shows "\<exists>b' w'. NewBook e bookID len docType w = Some (b', w')
           \<and> rows b' = R \<and> cols b' = C \<and> imgSize b' = (sum ws {0..<C}, sum hs {0..<R})
           \<and> retry b' = 2 \<and> book_length b' = len
           \<and> same_urls b' (fresh_session bookID len docType)
           \<and> files w' = files w \<and> pdf w' = pdf w \<and> assembled w' = assembled w
           \<and> length (requests w') = length (requests w) + nat (R + 1) + nat (C + 1)"
proof -
  let ?b0 = "fresh_session bookID len docType"
  have "rows_found ?b0 ?b0 w 0 R hs (findRows_loop e (?b0, w))"
    using findRows_loop_correct[OF assms(3,4), of ?b0 w] assms(1) by (simp add: same_urls_refl)
  then obtain b1 w1 where 1: "findRows_loop e (?b0, w) = Some (b1, w1)" "rows b1 = R"
    "cols b1 = - 1" "imgSize b1 = (0, sum hs {0..<R})" "same_urls b1 ?b0"
    "retry b1 = 2" "book_length b1 = len"
    "files w1 = files w" "pdf w1 = pdf w" "assembled w1 = assembled w"
    "map fst (requests w1) = map fst (requests w) @ map (\<lambda>r. tile_request ?b0 ''1'' r 0) [0..R]"
    by (auto simp: rows_found_def)
  have "cols_found ?b0 b1 w1 0 C ws (findCols_loop e (b1, w1))"
    using findCols_loop_correct[OF assms(5,6), of b1 w1] assms(2) 1 by simp
  then obtain b2 w2 where 2: "findCols_loop e (b1, w1) = Some (b2, w2)" "cols b2 = C"
    "rows b2 = R" "imgSize b2 = (sum ws {0..<C}, sum hs {0..<R})" "same_urls b2 ?b0"
    "retry b2 = 2" "book_length b2 = len"
    "files w2 = files w" "pdf w2 = pdf w" "assembled w2 = assembled w"
    "map fst (requests w2) = map fst (requests w1) @ map (\<lambda>c. tile_request ?b0 ''1'' 0 c) [0..C]"
    using 1 by (auto simp: cols_found_def)
  have "length (requests w2) = length (map fst (requests w2))" by simp
  also have "\<dots> = length (requests w) + nat (R + 1) + nat (C + 1)"
    unfolding 2(11) 1(11) by simp
  finally show ?thesis
    using 1 2 by (simp add: NewBook_def findRowsColsAndImgSize_def)
qed

lemma undecodable_page_tile:
  "p' \<noteq> [] \<Longrightarrow> undecodable_page p s t (tile_request b p' r c) =
     (if p' = p then Answered \<lparr>StatusCode = 200, Body = Payload Garbage\<rparr>
      else s t (tile_request b p' r c))"
  by (auto simp: undecodable_page_def field_int_tile_request)

text \<open>
  Claim C6 says that a tile whose body cannot be decoded is fetched again at most
  budget + 1 times, so that page assembly always terminates. In the code the \<^verbatim>\<open>continue\<close>
  after a failed read or decode skips both the \<^verbatim>\<open>col++\<close> and the retry counter: the same
  tile is requested again without any bound. The run below builds its session on a
  \<open>1 \<times> 1\<close> grid and then asks for the front cover, which the source answers with status
  200 and a body that is not an image, every time: the run never returns.
\<close>

theorem undecodable_cover_never_returns:
  "main (sandbox (undecodable_page ''C1'' (grid_source 9 1 1 10 10)))
     ''000123456'' 9 '''' blank_world = None"
proof -
  let ?e = "sandbox (undecodable_page ''C1'' (grid_source 9 1 1 10 10))"
  let ?b0 = "fresh_session ''000123456'' 9 ''''"
  have g: "\<And>t r c. 0 \<le> r \<Longrightarrow> 0 \<le> c \<Longrightarrow> srv ?e t (tile_request ?b0 ''1'' r c)
        = (if r < 1 \<and> c < 1 then ok_reply (tile 10 10 r c) else status_reply 404)"
    by (simp add: sandbox_def undecodable_page_tile grid_source_tile valid_page_numeral)
  have "\<exists>b' w'. NewBook ?e ''000123456'' 9 '''' blank_world = Some (b', w')
           \<and> rows b' = 1 \<and> cols b' = 1
           \<and> imgSize b' = (sum (\<lambda>c. 10) {0..<1::int}, sum (\<lambda>r. 10) {0..<1::int})
           \<and> retry b' = 2 \<and> book_length b' = 9 \<and> same_urls b' ?b0
           \<and> files w' = files blank_world \<and> pdf w' = pdf blank_world
           \<and> assembled w' = assembled blank_world
           \<and> length (requests w') = length (requests blank_world) + nat (1 + 1) + nat (1 + 1)"
    by (rule NewBook_session) (simp_all add: g tile_def)
  then obtain b1 w1 where nb: "NewBook ?e ''000123456'' 9 '''' blank_world = Some (b1, w1)"
    "rows b1 = 1" "cols b1 = 1" "book_length b1 = 9" "same_urls b1 ?b0"
    by auto
  have c1: "\<forall>t r c. tile_of (srv ?e t (tile_request ?b0 ''C1'' r c)) = None
                \<and> \<not> not_ok (srv ?e t (tile_request ?b0 ''C1'' r c))"
    by (simp add: sandbox_def undecodable_page_tile tile_of_def)
  have cols: "downloadPage_cols ?e ''C1'' 0 0 loc (b1, w) = None" for loc w
  proof (cases "downloadPage_cols ?e ''C1'' 0 0 loc (b1, w)")
    case (Some y)
    then show ?thesis
      using undecodable_never_returns[OF c1 _ Some] nb by simp
  qed simp
  have "downloadPage ?e ''C1'' (b1, w) = None" for w
    using nb(2) by (simp add: downloadPage_def Let_def downloadPage_rows.simps[of _ _ 0] cols)
  then show ?thesis
    using nb by (simp add: main_def downloadBook_def and_then_def Let_def)
qed

section \<open>An unauthorized tile request stops the run\<close>

lemma auth_ok_refl: "auth_ok w False w"
  by (simp add: auth_ok_def clean_def)

lemma auth_ok_request:
  "\<not> unauthorized r \<Longrightarrow> auth_ok w False (w\<lparr>requests := requests w @ [(q, r)]\<rparr>)"
  by (simp add: auth_ok_def clean_def)

lemma auth_ok_exit:
  "unauthorized r \<Longrightarrow> auth_ok w True (w\<lparr>requests := requests w @ [(q, r)]\<rparr>)"
  by (simp add: auth_ok_def clean_def)

lemma auth_ok_trans:
  assumes "auth_ok w False w1" and "auth_ok w1 ex w2"
  shows "auth_ok w ex w2"
proof -
  obtain n1 where 1: "requests w1 = requests w @ n1" "clean n1"
    using assms(1) by (auto simp: auth_ok_def)
  obtain n2 where 2: "requests w2 = requests w1 @ n2"
    "if ex then n2 \<noteq> [] \<and> clean (butlast n2) \<and> unauthorized (snd (last n2)) else clean n2"
    using assms(2) by (auto simp: auth_ok_def)
  have r: "requests w2 = requests w @ (n1 @ n2)" using 1 2 by simp
  show ?thesis
  proof (cases ex)
    case True
    then have "n2 \<noteq> []" "clean (butlast n2)" "unauthorized (snd (last n2))" using 2(2) by simp_all
    then have "n1 @ n2 \<noteq> [] \<and> clean (butlast (n1 @ n2)) \<and> unauthorized (snd (last (n1 @ n2)))"
      using 1(2) by (auto simp: clean_def butlast_append)
    then show ?thesis using r True unfolding auth_ok_def by metis
  next
    case False
    then have "clean (n1 @ n2)" using 1(2) 2(2) by (auto simp: clean_def)
    then show ?thesis using r False unfolding auth_ok_def by metis
  qed
qed

lemma auth_ok_frame:
  "requests w1 = requests w \<Longrightarrow> auth_ok w1 ex w2 \<Longrightarrow> auth_ok w ex w2"
  "requests w2' = requests w2 \<Longrightarrow> auth_ok w ex w2 \<Longrightarrow> auth_ok w ex w2'"
  by (simp_all add: auth_ok_def)

lemma ok_not_unauthorized: "\<not> not_ok r \<Longrightarrow> \<not> unauthorized r"
  by (cases r) (simp_all add: unauthorized_def)

lemma downloadPage_cols_auth:
  assumes run: "downloadPage_cols e p row col loc bw = Some y"
  shows "auth_ok (snd bw) (exited y) (loop_world y)"
proof -
  let ?P = "\<lambda>(e::env) (p::string) (row::int) (col::int) (loc::raster \<times> int \<times> int)
      (bw::TBook \<times> world)
      (y::(stop \<times> TBook \<times> world) + ((raster \<times> int \<times> int) \<times> TBook \<times> world)).
      auth_ok (snd bw) (exited y) (loop_world y)"
  show ?thesis
  proof (rule downloadPage_cols.raw_induct[where P = ?P, OF _ run], goal_cases)
    case (1 f e p row col loc bw y)
    note IH = 1(1) and F = 1(2)
    obtain b w where bw: "bw = (b, w)" by (cases bw)
    obtain i xo yo where loc: "loc = (i, xo, yo)" by (cases loc)
    let ?b1 = "updateParams p (Itoa col) (Itoa row) b"
    let ?q = "(GET, formatURL ?b1)"
    let ?r = "srv e (length (requests w)) ?q"
    let ?w1 = "w\<lparr>requests := requests w @ [(?q, ?r)]\<rparr>"
    have step: "\<not> unauthorized ?r \<Longrightarrow> f e p row c l (b', ?w1) = Some y \<Longrightarrow>
        auth_ok w (exited y) (loop_world y)" for c l b'
      using IH[of e p row c l "(b', ?w1)" y] auth_ok_trans[OF auth_ok_request] by simp
    have "(\<not> col < cols b \<and> y = Inr (loc, b, w))
        \<or> (unauthorized ?r \<and> y = Inl (Exit1, ?b1, ?w1))
        \<or> (\<not> unauthorized ?r \<and> y = Inl (Panic, ?b1, ?w1))
        \<or> (\<not> unauthorized ?r \<and> (\<exists>c l b'. f e p row c l (b', ?w1) = Some y))"
      using F ok_not_unauthorized[of ?r]
      by (auto simp: bw loc client_do_def Let_def split: if_splits option.splits body.splits)
    then show ?case
      using step auth_ok_request[of ?r w ?q]
      by (auto simp: bw loc auth_ok_refl auth_ok_exit)
  qed
qed

lemma downloadPage_rows_auth:
  assumes run: "downloadPage_rows e p row loc bw = Some y"
  shows "auth_ok (snd bw) (exited y) (loop_world y)"
proof -
  let ?P = "\<lambda>(e::env) (p::string) (row::int) (loc::raster \<times> int \<times> int)
      (bw::TBook \<times> world)
      (y::(stop \<times> TBook \<times> world) + ((raster \<times> int \<times> int) \<times> TBook \<times> world)).
      auth_ok (snd bw) (exited y) (loop_world y)"
  show ?thesis
  proof (rule downloadPage_rows.raw_induct[where P = ?P, OF _ run], goal_cases)
    case (1 f e p row loc bw y)
    note IH = 1(1) and F = 1(2)
    show ?case
    proof (cases "row < rows (fst bw)")
      case False
      then show ?thesis using F by (cases bw) (auto simp: auth_ok_refl)
    next
      case True
      then obtain z where z: "downloadPage_cols e p row 0 loc bw = Some z"
        using F by (cases "downloadPage_cols e p row 0 loc bw") auto
      note c = downloadPage_cols_auth[OF z]
      show ?thesis
      proof (cases z)
        case (Inl s)
        then show ?thesis using F True z c by simp
      next
        case (Inr x)
        then obtain loc1 b1 w1 where x: "z = Inr (loc1, b1, w1)" by (cases x) auto
        then have "f e p (row + 1) loc1 (b1, w1) = Some y" using F True z by simp
        then have "auth_ok w1 (exited y) (loop_world y)" using IH by fastforce
        then show ?thesis using c x auth_ok_trans by fastforce
      qed
    qed
  qed
qed

lemma downloadPage_auth:
  assumes "downloadPage e p (b, w) = Some out"
  shows "auth_ok w (exited out) (world_of out)"
proof -
  let ?w0 = "w\<lparr>assembled := assembled w @ [(p, retry b, rows b, cols b, imgSize b)]\<rparr>"
  let ?img = "NewRGBA (image_Rect 0 0 (fst (imgSize b)) (snd (imgSize b)))"
  obtain z where z: "downloadPage_rows e p 0 (?img, 0, 0) (b, ?w0) = Some z"
    using assms by (cases "downloadPage_rows e p 0 (?img, 0, 0) (b, ?w0)") (auto simp: downloadPage_def Let_def)
  have c: "auth_ok w (exited z) (loop_world z)"
    using downloadPage_rows_auth[OF z] by (simp add: auth_ok_frame(1)[of ?w0 w])
  show ?thesis
  proof (cases z)
    case (Inl s)
    then show ?thesis
      using assms z c by (cases s) (auto simp: downloadPage_def Let_def)
  next
    case (Inr x)
    then obtain loc1 b1 w1 where x: "z = Inr (loc1, b1, w1)" by (cases x) auto
    show ?thesis
      using assms z c x
      by (auto simp: downloadPage_def Let_def auth_ok_def split: if_splits)
  qed
qed

lemma auth_ok_index:
  assumes "auth_ok w ex w'" and "length (requests w) \<le> i" and "i < length (requests w')"
    and "unauthorized (snd (requests w' ! i))"
  shows "ex \<and> Suc i = length (requests w')"
proof -
  obtain new where n: "requests w' = requests w @ new"
    "if ex then new \<noteq> [] \<and> clean (butlast new) \<and> unauthorized (snd (last new)) else clean new"
    using assms(1) by (auto simp: auth_ok_def)
  let ?k = "i - length (requests w)"
  have k: "?k < length new" "requests w' ! i = new ! ?k"
    using assms(2,3) n(1) by (simp_all add: nth_append)
  have bad: "unauthorized (snd (new ! ?k))" using assms(4) k by simp
  show ?thesis
  proof (cases ex)
    case False
    then have "clean new" using n(2) by simp
    then show ?thesis using bad k(1) by (auto simp: clean_def)
  next
    case True
    then have c: "clean (butlast new)" using n(2) by simp
    have "\<not> ?k < length new - 1"
    proof
      assume "?k < length new - 1"
      then have "new ! ?k \<in> set (butlast new)"
        by (metis length_butlast nth_butlast nth_mem)
      then show False using c bad by (auto simp: clean_def)
    qed
    then have "Suc i = length (requests w')" using k(1) assms(2) n(1) by simp
    then show ?thesis using True by simp
  qed
qed

lemma auth_ok_last:
  assumes "auth_ok w True w'"
  shows "length (requests w) < length (requests w') \<and> unauthorized (snd (last (requests w')))"
  using assms by (auto simp: auth_ok_def)

lemma unauthorized_step:
  assumes "col < cols b0"
    and "unauthorized (srv e (length (requests w0))
            (GET, formatURL (updateParams pageNr (Itoa col) (Itoa row) b0)))"
  shows "\<exists>b' w'. downloadPage_cols e pageNr row col loc (b0, w0) = Some (Inl (Exit1, b', w'))
           \<and> retry b' = retry b0 \<and> length (requests w') = Suc (length (requests w0))"
proof -
  let ?r = "srv e (length (requests w0)) (GET, formatURL (updateParams pageNr (Itoa col) (Itoa row) b0))"
  have "not_ok ?r" using assms(2) ok_not_unauthorized by blast
  then show ?thesis
    using assms by (subst downloadPage_cols.simps) (simp add: client_do_def Let_def)
qed

text \<open>
  Claim C1, as amended. In the tiled program's page assembly a tile request that is
  answered with status 401 stops the run at once. For every call of \<^verbatim>\<open>downloadPage\<close> that
  comes to an end: if one of the requests it issued was answered with status 401, the
  call ended in \<^verbatim>\<open>os.Exit(1)\<close> and that request is the last one of the log; and a call
  that ended in \<^verbatim>\<open>os.Exit(1)\<close> issued a request, the last of which was answered with 401.
  The tile fetch that is answered with 401 exits with the retry budget as it was and with
  that one request added to the log.
\<close>

theorem unauthorized_tile_stops_run:
  assumes "downloadPage e pageNr (b, w) = Some out"
  shows "(\<forall>i. length (requests w) \<le> i \<and> i < length (requests (world_of out))
              \<and> unauthorized (snd (requests (world_of out) ! i))
            \<longrightarrow> exited out \<and> Suc i = length (requests (world_of out)))
       \<and> (exited out \<longrightarrow> length (requests w) < length (requests (world_of out))
              \<and> unauthorized (snd (last (requests (world_of out)))))
       \<and> (\<forall>row col loc b0 w0. col < cols b0
              \<and> unauthorized (srv e (length (requests w0))
                    (GET, formatURL (updateParams pageNr (Itoa col) (Itoa row) b0)))
            \<longrightarrow> (\<exists>b' w'. downloadPage_cols e pageNr row col loc (b0, w0) = Some (Inl (Exit1, b', w'))
                   \<and> retry b' = retry b0 \<and> length (requests w') = Suc (length (requests w0))))"
proof -
  note a = downloadPage_auth[OF assms]
  have 1: "\<forall>i. length (requests w) \<le> i \<and> i < length (requests (world_of out))
              \<and> unauthorized (snd (requests (world_of out) ! i))
            \<longrightarrow> exited out \<and> Suc i = length (requests (world_of out))"
    using auth_ok_index[OF a] by blast
  have 2: "exited out \<longrightarrow> length (requests w) < length (requests (world_of out))
              \<and> unauthorized (snd (last (requests (world_of out))))"
    using a auth_ok_last by auto
  have 3: "\<forall>row col loc b0 w0. col < cols b0
              \<and> unauthorized (srv e (length (requests w0))
                    (GET, formatURL (updateParams pageNr (Itoa col) (Itoa row) b0)))
            \<longrightarrow> (\<exists>b' w'. downloadPage_cols e pageNr row col loc (b0, w0) = Some (Inl (Exit1, b', w'))
                   \<and> retry b' = retry b0 \<and> length (requests w') = Suc (length (requests w0)))"
    using unauthorized_step by blast
  show ?thesis using 1 2 3 by (intro conjI)
qed

text \<open>
  Claim C1 as stated fails. In the direct program a source that answers every request
  with status 403 does not stop the run: the front cover is requested four times, the
  retry budget goes from 2 to -1, and the run goes on to probe \<open>I1\<close> and to request pages
  1, 2, 3 and the back cover, nine requests in all, and returns. In the tiled program a
  tile answered with 403 is retried like any other failure (four requests for a page of
  one tile).
\<close>

theorem auth_fault_retried_counterexample:
  "finished (downloadBook_direct (sandbox (status_source 403))
               (NewBook_direct ''000123456'' 3 '''', blank_world))
   \<and> map status_of (log_of (downloadBook_direct (sandbox (status_source 403))
               (NewBook_direct ''000123456'' 3 '''', blank_world)))
       = [Some 403, Some 403, Some 403, Some 403, Some 403, Some 403, Some 403, Some 403, Some 403]
   \<and> map asked (log_of (downloadBook_direct (sandbox (status_source 403))
               (NewBook_direct ''000123456'' 3 '''', blank_world)))
       = [(GET, ''C1''), (GET, ''C1''), (GET, ''C1''), (GET, ''C1''), (HEAD, ''I1''),
          (GET, ''1''), (GET, ''2''), (GET, ''3''), (GET, ''C3'')]
   \<and> left_retry (downloadBook_direct (sandbox (status_source 403))
               (NewBook_direct ''000123456'' 3 '''', blank_world)) = Some (- 1)
   \<and> finished (downloadPage (sandbox (status_source 403)) ''C1''
               (tiled_session ''000123456'' 3 1 1 10 10, blank_world))
   \<and> map status_of (log_of (downloadPage (sandbox (status_source 403)) ''C1''
               (tiled_session ''000123456'' 3 1 1 10 10, blank_world)))
       = [Some 403, Some 403, Some 403, Some 403]"
  by code_simp

theorem unauthorized_tile_stops_run_witness:
  "\<exists>out. downloadPage (sandbox (status_source 401)) ''C1''
            (tiled_session ''000123456'' 3 2 2 10 10, blank_world) = Some out
         \<and> exited out
         \<and> length (requests (world_of out)) = 1
         \<and> unauthorized (snd (last (requests (world_of out))))"
proof -
  let ?e = "sandbox (status_source 401)"
  let ?b = "tiled_session ''000123456'' 3 2 2 10 10"
  let ?w0 = "blank_world\<lparr>assembled := assembled blank_world
      @ [(''C1'', retry ?b, rows ?b, cols ?b, imgSize ?b)]\<rparr>"
  let ?loc = "(NewRGBA (image_Rect 0 0 (fst (imgSize ?b)) (snd (imgSize ?b))), 0::int, 0::int)"
  have u: "unauthorized (srv ?e t q)" for t q
    by (simp add: sandbox_def status_source_def status_reply_def unauthorized_def)
  obtain b' w' where c: "downloadPage_cols ?e ''C1'' 0 0 ?loc (?b, ?w0) = Some (Inl (Exit1, b', w'))"
    "length (requests w') = Suc (length (requests ?w0))"
    using unauthorized_step[of 0 ?b ?e ?w0 "''C1''" 0 ?loc] u by auto
  have run: "downloadPage ?e ''C1'' (?b, blank_world) = Some (Inl (Exit1, b', w'))"
    using c(1) by (simp add: downloadPage_def Let_def downloadPage_rows.simps[of _ _ 0])
  have "unauthorized (snd (last (requests w')))"
    using unauthorized_tile_stops_run[OF run] by simp
  then show ?thesis
    using run c(2) by (simp add: blank_world_def)
qed

section \<open>A page whose tiles all fail\<close>


lemma kept_retry: "kept b (b\<lparr>retry := x\<rparr>)"
  by (simp add: kept_def)





section \<open>What the loops leave alone\<close>

lemma untouched_refl: "untouched w w"
  by (simp add: untouched_def)

lemma untouched_trans: "untouched a b \<Longrightarrow> untouched b c \<Longrightarrow> untouched a c"
  by (simp add: untouched_def)

lemma untouched_request: "untouched w (w\<lparr>requests := x\<rparr>)"
  by (simp add: untouched_def)

lemma client_do_untouched: "untouched w (snd (client_do e m u w))"
  by (simp add: client_do_def Let_def untouched_def)

lemma findBookLength_loop_frame:
  assumes run: "findBookLength_loop e delta j bw = Some y"
  shows "kept (fst bw) (fst (snd y)) \<and> retry (fst (snd y)) = retry (fst bw)
         \<and> untouched (snd bw) (snd (snd y))"
proof -
  let ?P = "\<lambda>(e::env) (delta::int) (j::int) (bw::TBook \<times> world) (y::int \<times> TBook \<times> world).
      kept (fst bw) (fst (snd y)) \<and> retry (fst (snd y)) = retry (fst bw)
         \<and> untouched (snd bw) (snd (snd y))"
  show ?thesis
  proof (rule findBookLength_loop.raw_induct[where P = ?P, OF _ run], goal_cases)
    case (1 f e delta j bw y)
    note IH = 1(1) and F = 1(2)
    let ?b1 = "updateParams (Itoa j) ''0'' ''0'' (fst bw)"
    let ?w1 = "snd (client_do e GET (formatURL ?b1) (snd bw))"
    have k: "kept (fst bw) ?b1" "retry ?b1 = retry (fst bw)" "untouched (snd bw) ?w1"
      by (simp_all add: kept_updateParams client_do_untouched)
    have "y = (j - 1, ?b1, ?w1) \<or> (\<exists>d i. f e d i (?b1, ?w1) = Some y)"
      using F by (auto simp: Let_def split: if_splits)
    then show ?case
    proof
      assume "y = (j - 1, ?b1, ?w1)"
      then show ?thesis using k by simp
    next
      assume "\<exists>d i. f e d i (?b1, ?w1) = Some y"
      then obtain d i where "f e d i (?b1, ?w1) = Some y" by blast
      from IH[OF this] show ?thesis
        using k kept_trans untouched_trans by fastforce
    qed
  qed
qed

lemma findRows_loop_frame:
  assumes run: "findRows_loop e bw = Some y"
  shows "retry (fst y) = retry (fst bw) \<and> book_length (fst y) = book_length (fst bw)
         \<and> path (fst y) = path (fst bw) \<and> untouched (snd bw) (snd y)"
proof -
  let ?P = "\<lambda>(e::env) (bw::TBook \<times> world) (y::TBook \<times> world).
      retry (fst y) = retry (fst bw) \<and> book_length (fst y) = book_length (fst bw)
         \<and> path (fst y) = path (fst bw) \<and> untouched (snd bw) (snd y)"
  show ?thesis
  proof (rule findRows_loop.raw_induct[where P = ?P, OF _ run], goal_cases)
    case (1 f e bw y)
    note IH = 1(1) and F = 1(2)
    let ?b1 = "updateParams ''1'' ''0'' (Itoa (rows (fst bw) + 1)) ((fst bw)\<lparr>rows := rows (fst bw) + 1\<rparr>)"
    let ?w1 = "snd (client_do e GET (formatURL ?b1) (snd bw))"
    have k: "untouched (snd bw) ?w1" by (simp add: client_do_untouched)
    have "y = (?b1, ?w1) \<or> (\<exists>s. f e (?b1\<lparr>imgSize := s\<rparr>, ?w1) = Some y)"
      using F by (auto simp: Let_def split: if_splits reply.splits body.splits option.splits)
    then show ?case
    proof
      assume "y = (?b1, ?w1)"
      then show ?thesis using k by simp
    next
      assume "\<exists>s. f e (?b1\<lparr>imgSize := s\<rparr>, ?w1) = Some y"
      then obtain s where "f e (?b1\<lparr>imgSize := s\<rparr>, ?w1) = Some y" by blast
      from IH[OF this] show ?thesis
        using k untouched_trans by fastforce
    qed
  qed
qed

lemma findCols_loop_frame:
  assumes run: "findCols_loop e bw = Some y"
  shows "retry (fst y) = retry (fst bw) \<and> book_length (fst y) = book_length (fst bw)
         \<and> path (fst y) = path (fst bw) \<and> untouched (snd bw) (snd y)"
proof -
  let ?P = "\<lambda>(e::env) (bw::TBook \<times> world) (y::TBook \<times> world).
      retry (fst y) = retry (fst bw) \<and> book_length (fst y) = book_length (fst bw)
         \<and> path (fst y) = path (fst bw) \<and> untouched (snd bw) (snd y)"
  show ?thesis
  proof (rule findCols_loop.raw_induct[where P = ?P, OF _ run], goal_cases)
    case (1 f e bw y)
    note IH = 1(1) and F = 1(2)
    let ?b1 = "updateParams ''1'' (Itoa (cols (fst bw) + 1)) ''0'' ((fst bw)\<lparr>cols := cols (fst bw) + 1\<rparr>)"
    let ?w1 = "snd (client_do e GET (formatURL ?b1) (snd bw))"
    have k: "untouched (snd bw) ?w1" by (simp add: client_do_untouched)
    have "y = (?b1, ?w1) \<or> (\<exists>s. f e (?b1\<lparr>imgSize := s\<rparr>, ?w1) = Some y)"
      using F by (auto simp: Let_def split: if_splits reply.splits body.splits option.splits)
    then show ?case
    proof
      assume "y = (?b1, ?w1)"
      then show ?thesis using k by simp
    next
      assume "\<exists>s. f e (?b1\<lparr>imgSize := s\<rparr>, ?w1) = Some y"
      then obtain s where "f e (?b1\<lparr>imgSize := s\<rparr>, ?w1) = Some y" by blast
      from IH[OF this] show ?thesis
        using k untouched_trans by fastforce
    qed
  qed
qed

lemma NewBook_frame:
  assumes "NewBook e bookID len docType w = Some (b0, w0)"
  shows "retry b0 = 2 \<and> book_length b0 = len \<and> untouched w w0"
proof -
  obtain y where 1: "findRows_loop e (fresh_session bookID len docType, w) = Some y"
    and 2: "findCols_loop e y = Some (b0, w0)"
    using assms by (auto simp: NewBook_def findRowsColsAndImgSize_def Option.bind_eq_Some_conv)
  show ?thesis
    using findRows_loop_frame[OF 1] findCols_loop_frame[OF 2] untouched_trans by fastforce
qed

lemma draw_Draw_bounds: "bounds (draw_Draw dst r src) = bounds dst"
  by (simp add: draw_Draw_def Let_def)

lemma downloadPage_cols_frame:
  assumes run: "downloadPage_cols e p row col loc bw = Some y"
  shows "kept (fst bw) (loop_book y) \<and> untouched (snd bw) (loop_world y)
         \<and> (\<forall>l b w. y = Inr (l, b, w) \<longrightarrow> bounds (fst l) = bounds (fst loc))"
proof -
  let ?P = "\<lambda>(e::env) (p::string) (row::int) (col::int) (loc::raster \<times> int \<times> int)
      (bw::TBook \<times> world)
      (y::(stop \<times> TBook \<times> world) + ((raster \<times> int \<times> int) \<times> TBook \<times> world)).
      kept (fst bw) (loop_book y) \<and> untouched (snd bw) (loop_world y)
         \<and> (\<forall>l b w. y = Inr (l, b, w) \<longrightarrow> bounds (fst l) = bounds (fst loc))"
  show ?thesis
  proof (rule downloadPage_cols.raw_induct[where P = ?P, OF _ run], goal_cases)
    case (1 f e p row col loc bw y)
    note IH = 1(1) and F = 1(2)
    obtain b w where bw: "bw = (b, w)" by (cases bw)
    obtain i xo yo where loc: "loc = (i, xo, yo)" by (cases loc)
    let ?b1 = "updateParams p (Itoa col) (Itoa row) b"
    let ?w1 = "snd (client_do e GET (formatURL ?b1) w)"
    let ?Q = "kept b (loop_book y) \<and> untouched w (loop_world y)
         \<and> (\<forall>l b w. y = Inr (l, b, w) \<longrightarrow> bounds (fst l) = bounds i)"
    have k: "kept b ?b1" "untouched w ?w1"
      by (simp_all add: kept_updateParams client_do_untouched)
    have step: "?Q" if a: "f e p row c (i', xo', yo') (b', ?w1) = Some y"
      and b: "bounds i' = bounds i" and c: "kept b b'" for c i' xo' yo' b'
    proof -
      have "kept b' (loop_book y)" "untouched ?w1 (loop_world y)"
        "\<forall>l b w. y = Inr (l, b, w) \<longrightarrow> bounds (fst l) = bounds i'"
        using IH[OF a] by simp_all
      then show ?thesis
        using b c k(2) kept_trans[of b b'] untouched_trans[of w ?w1] by simp
    qed
    have k2: "kept b (?b1\<lparr>retry := r\<rparr>)" for r using k(1) by (simp add: kept_def)
    show ?case
    proof (cases "col < cols b")
      case False
      then have "Some (Inr (loc, bw)) = Some y" using F by (simp only: if_False fst_conv bw)
      then have y: "y = Inr ((i, xo, yo), b, w)" by (simp add: bw loc)
      have "kept b b" "untouched w w" by (simp_all add: kept_refl untouched_refl)
      then show ?thesis by (simp add: y bw loc)
    next
      case True
      let ?r = "fst (client_do e GET (formatURL ?b1) w)"
      show ?thesis
      proof (cases "not_ok ?r")
        case nok: True
        show ?thesis
        proof (cases "unauthorized ?r")
          case True
          then have "y = Inl (Exit1, ?b1, ?w1)"
            using F \<open>col < cols b\<close> nok by (simp add: bw loc Let_def)
          then show ?thesis using k by (simp add: bw loc)
        next
          case False
          then have "f e p row col (i, xo, yo) (?b1\<lparr>retry := retry ?b1 - 1\<rparr>, ?w1) = Some y
              \<or> f e p row (col + 1) (i, xo, yo) (?b1, ?w1) = Some y"
            using F \<open>col < cols b\<close> nok by (simp add: bw loc Let_def split: if_splits)
          then have ?Q
          proof
            assume a: "f e p row col (i, xo, yo) (?b1\<lparr>retry := retry ?b1 - 1\<rparr>, ?w1) = Some y"
            show ?Q by (rule step[OF a refl k2])
          next
            assume a: "f e p row (col + 1) (i, xo, yo) (?b1, ?w1) = Some y"
            show ?Q by (rule step[OF a refl k(1)])
          qed
          then show ?thesis by (simp add: bw loc)
        qed
      next
        case ok: False
        show ?thesis
        proof (cases "resp_of ?r")
          case None
          then have "y = Inl (Panic, ?b1, ?w1)"
            using F \<open>col < cols b\<close> ok by (simp add: bw loc Let_def)
          then show ?thesis using k by (simp add: bw loc)
        next
          case (Some resp)
          have cont: "f e p row col (i, xo, yo) (?b1, ?w1) = Some y \<Longrightarrow> ?Q"
            by (rule step[OF _ refl k(1)])
          show ?thesis
          proof (cases "Body resp")
            case ReadError
            then have "f e p row col (i, xo, yo) (?b1, ?w1) = Some y"
              using F \<open>col < cols b\<close> ok Some by (simp add: bw loc Let_def)
            then show ?thesis using cont by (simp add: bw loc)
          next
            case (Payload d)
            show ?thesis
            proof (cases "image_Decode d")
              case None
              then have "f e p row col (i, xo, yo) (?b1, ?w1) = Some y"
                using F \<open>col < cols b\<close> ok Some Payload by (simp add: bw loc Let_def)
              then show ?thesis using cont by (simp add: bw loc)
            next
              case (Some pp)
              let ?i1 = "draw_Draw i (image_Rect xo yo (xo + Dx pp) (yo + Dy pp)) pp"
              have "f e p row (col + 1) (?i1, 0, yo + Dy pp) (?b1, ?w1) = Some y
                  \<or> f e p row (col + 1) (?i1, xo + Dx pp, yo) (?b1, ?w1) = Some y"
                using F \<open>col < cols b\<close> ok \<open>resp_of ?r = Some resp\<close> Payload Some
                by (simp add: bw loc Let_def split: if_splits)
              then have ?Q
              proof
                assume a: "f e p row (col + 1) (?i1, 0, yo + Dy pp) (?b1, ?w1) = Some y"
                show ?Q by (rule step[OF a draw_Draw_bounds k(1)])
              next
                assume a: "f e p row (col + 1) (?i1, xo + Dx pp, yo) (?b1, ?w1) = Some y"
                show ?Q by (rule step[OF a draw_Draw_bounds k(1)])
              qed
              then show ?thesis by (simp add: bw loc)
            qed
          qed
        qed
      qed
    qed
  qed
qed

lemma downloadPage_rows_frame:
  assumes run: "downloadPage_rows e p row loc bw = Some y"
  shows "kept (fst bw) (loop_book y) \<and> untouched (snd bw) (loop_world y)
         \<and> (\<forall>l b w. y = Inr (l, b, w) \<longrightarrow> bounds (fst l) = bounds (fst loc))"
proof -
  let ?P = "\<lambda>(e::env) (p::string) (row::int) (loc::raster \<times> int \<times> int)
      (bw::TBook \<times> world)
      (y::(stop \<times> TBook \<times> world) + ((raster \<times> int \<times> int) \<times> TBook \<times> world)).
      kept (fst bw) (loop_book y) \<and> untouched (snd bw) (loop_world y)
         \<and> (\<forall>l b w. y = Inr (l, b, w) \<longrightarrow> bounds (fst l) = bounds (fst loc))"
  show ?thesis
  proof (rule downloadPage_rows.raw_induct[where P = ?P, OF _ run], goal_cases)
    case (1 f e p row loc bw y)
    note IH = 1(1) and F = 1(2)
    show ?case
    proof (cases "row < rows (fst bw)")
      case False
      then have "Some (Inr (loc, bw)) = Some y" using F by (simp only: if_False)
      moreover obtain b w where bw: "bw = (b, w)" by (cases bw)
      ultimately have y: "y = Inr (loc, b, w)" by simp
      show ?thesis by (simp add: y bw kept_refl untouched_refl)
    next
      case True
      then obtain z where z: "downloadPage_cols e p row 0 loc bw = Some z"
        using F by (cases "downloadPage_cols e p row 0 loc bw") simp_all
      note c = downloadPage_cols_frame[OF z]
      show ?thesis
      proof (cases z)
        case (Inl s)
        then have "y = z" using F True z by simp
        then show ?thesis using c Inl by simp
      next
        case (Inr x)
        obtain loc1 b1 w1 where x: "x = (loc1, b1, w1)" by (cases x)
        have a: "f e p (row + 1) loc1 (b1, w1) = Some y" using F True z Inr x by simp
        have c1: "kept (fst bw) b1" "untouched (snd bw) w1" "bounds (fst loc1) = bounds (fst loc)"
          using c Inr x by simp_all
        have i1: "kept b1 (loop_book y)" "untouched w1 (loop_world y)"
          "\<forall>l b w. y = Inr (l, b, w) \<longrightarrow> bounds (fst l) = bounds (fst loc1)"
          using IH[OF a] by simp_all
        show ?thesis
          using kept_trans[OF c1(1) i1(1)] untouched_trans[OF c1(2) i1(2)] i1(3) c1(3) by simp
      qed
    qed
  qed
qed

lemma downloadPage_frame:
  assumes "downloadPage e p (b, w) = Some out"
  shows "kept b (book_of out) \<and> pdf (world_of out) = pdf w
       \<and> assembled (world_of out) = assembled w @ [(p, retry b, rows b, cols b, imgSize b)]
       \<and> (\<forall>b' w'. out = Inr (b', w') \<and> create_ok e (Join (path b) (p @ ''.jpg'')) \<longrightarrow>
             (\<exists>img. files w' (Join (path b) (p @ ''.jpg''))
                       = Some (jpeg_Encode e (Join (path b) (p @ ''.jpg'')) img)
                \<and> bounds img = image_Rect 0 0 (fst (imgSize b)) (snd (imgSize b))))"
proof -
  let ?w0 = "w\<lparr>assembled := assembled w @ [(p, retry b, rows b, cols b, imgSize b)]\<rparr>"
  let ?img = "NewRGBA (image_Rect 0 0 (fst (imgSize b)) (snd (imgSize b)))"
  obtain z where z: "downloadPage_rows e p 0 (?img, 0, 0) (b, ?w0) = Some z"
    using assms
    by (cases "downloadPage_rows e p 0 (?img, 0, 0) (b, ?w0)") (simp_all add: downloadPage_def Let_def)
  note c = downloadPage_rows_frame[OF z]
  show ?thesis
  proof (cases z)
    case (Inl s)
    obtain st b1 w1 where s: "s = (st, b1, w1)" by (cases s)
    have "out = Inl (st, b1, w1)" using assms z Inl s by (simp add: downloadPage_def Let_def)
    then show ?thesis using c Inl s by (simp add: untouched_def)
  next
    case (Inr x)
    obtain loc1 b1 w1 where x: "x = (loc1, b1, w1)" by (cases x)
    have c1: "kept b b1" "untouched ?w0 w1" "bounds (fst loc1) = bounds ?img"
      using c Inr x by simp_all
    have pth: "path b1 = path b" using c1(1) by (simp add: kept_def)
    have o: "out = (if \<not> create_ok e (Join (path b) (p @ ''.jpg'')) then Inr (b1, w1)
        else Inr (b1, w1\<lparr>files := (files w1)(Join (path b) (p @ ''.jpg'') \<mapsto>
                                      jpeg_Encode e (Join (path b) (p @ ''.jpg'')) (fst loc1))\<rparr>))"
      using assms z Inr x pth by (simp add: downloadPage_def Let_def split: if_splits)
    have ex: "\<exists>img. jpeg_Encode e (Join (path b) (p @ ''.jpg'')) (fst loc1)
                   = jpeg_Encode e (Join (path b) (p @ ''.jpg'')) img
                \<and> bounds img = image_Rect 0 0 (fst (imgSize b)) (snd (imgSize b))"
      using c1(3) by (intro exI[of _ "fst loc1"]) (simp add: NewRGBA_def)
    show ?thesis
      using c1 ex by (simp add: o untouched_def)
  qed
qed

section \<open>The grid and the page files of a run\<close>

lemma assembled_with_refl: "assembled w' = assembled w \<Longrightarrow> assembled_with g w w'"
  by (simp add: assembled_with_def)

lemma assembled_with_one: "assembled w' = assembled w @ [(p, r, g)] \<Longrightarrow> assembled_with g w w'"
  by (simp add: assembled_with_def)

lemma assembled_with_trans:
  assumes "assembled_with g a b" and "assembled_with g b c"
  shows "assembled_with g a c"
proof -
  obtain n1 where 1: "assembled b = assembled a @ n1" "list_all (\<lambda>x. snd (snd x) = g) n1"
    using assms(1) unfolding assembled_with_def by blast
  obtain n2 where 2: "assembled c = assembled b @ n2" "list_all (\<lambda>x. snd (snd x) = g) n2"
    using assms(2) unfolding assembled_with_def by blast
  have "assembled c = assembled a @ (n1 @ n2)" "list_all (\<lambda>x. snd (snd x) = g) (n1 @ n2)"
    using 1 2 by simp_all
  then show ?thesis unfolding assembled_with_def by blast
qed

lemma session_grid_kept: "kept b b' \<Longrightarrow> session_grid b' = session_grid b"
  by (simp add: kept_def session_grid_def)

lemma downloadPage_run:
  assumes "downloadPage e p (b, w) = Some out"
  shows "kept b (book_of out) \<and> pdf (world_of out) = pdf w
         \<and> assembled_with (session_grid b) w (world_of out)"
  using downloadPage_frame[OF assms]
  by (simp add: assembled_with_one session_grid_def)

lemma downloadBook_pages_frame:
  assumes run: "downloadBook_pages e page bw = Some y"
  shows "kept (fst bw) (book_of y) \<and> pdf (world_of y) = pdf (snd bw)
         \<and> assembled_with (session_grid (fst bw)) (snd bw) (world_of y)"
proof -
  let ?P = "\<lambda>(e::env) (page::int) (bw::TBook \<times> world)
      (y::(stop \<times> TBook \<times> world) + (TBook \<times> world)).
         kept (fst bw) (book_of y) \<and> pdf (world_of y) = pdf (snd bw)
         \<and> assembled_with (session_grid (fst bw)) (snd bw) (world_of y)"
  show ?thesis
  proof (rule downloadBook_pages.raw_induct[where P = ?P, OF _ run], goal_cases)
    case (1 f e page bw y)
    note IH = 1(1) and F = 1(2)
    obtain b w where bw: "bw = (b, w)" by (cases bw)
    show ?case
    proof (cases "page \<le> book_length b")
      case False
      then have "Some (Inr bw) = Some y" using F by (simp add: bw)
      then have y: "y = Inr (b, w)" by (simp add: bw)
      show ?thesis by (simp add: y bw kept_refl assembled_with_refl)
    next
      case True
      then obtain z where z: "downloadPage e (Itoa page) (b, w) = Some z"
        using F by (cases "downloadPage e (Itoa page) (b, w)") (simp_all add: bw)
      note c = downloadPage_run[OF z]
      show ?thesis
      proof (cases z)
        case (Inl s)
        then have "y = z" using F True z by (simp add: bw)
        then show ?thesis using c Inl by (simp add: bw)
      next
        case (Inr x)
        obtain b1 w1 where x: "x = (b1, w1)" by (cases x)
        have a: "f e (page + 1) (b1\<lparr>retry := 2\<rparr>, w1) = Some y"
          using F True z Inr x by (simp add: bw)
        have c1: "kept b b1" "pdf w1 = pdf w" "assembled_with (session_grid b) w w1"
          using c Inr x by simp_all
        have k2: "kept b (b1\<lparr>retry := 2\<rparr>)" using c1(1) by (simp add: kept_def)
        have i1: "kept (b1\<lparr>retry := 2\<rparr>) (book_of y)" "pdf (world_of y) = pdf w1"
          "assembled_with (session_grid (b1\<lparr>retry := 2\<rparr>)) w1 (world_of y)"
          using IH[OF a] by simp_all
        have g: "session_grid (b1\<lparr>retry := 2\<rparr>) = session_grid b"
          using k2 by (rule session_grid_kept)
        show ?thesis
          using kept_trans[OF k2 i1(1)] i1(2) c1(2)
            assembled_with_trans[OF c1(3) i1(3)[unfolded g]]
          by (simp add: bw)
      qed
    qed
  qed
qed

lemma and_then_SomeE:
  assumes "and_then m f = Some out"
  obtains s where "m = Some (Inl s)" "out = Inl s"
    | x where "m = Some (Inr x)" "f x = Some out"
  using assms by (auto simp: and_then_def split: option.splits sum.splits)

lemma downloadBook_frame:
  assumes run: "downloadBook e (b, w) = Some out"
  shows "rows (book_of out) = rows b \<and> cols (book_of out) = cols b
         \<and> imgSize (book_of out) = imgSize b
         \<and> assembled_with (session_grid b) w (world_of out)
         \<and> (\<forall>b' w'. out = Inr (b', w') \<longrightarrow> pdf w' = pdf_pages (path b) (book_length b'))"
proof -
  let ?g = "session_grid b"
  let ?w = "w\<lparr>pdf := []\<rparr>"
  let ?m0 = "if book_length b = 0 then
              (case findBookLength e (b, ?w) of
                 None \<Rightarrow> None
               | Some (n, b1, w1) \<Rightarrow> Some (Inr (b1\<lparr>book_length := n\<rparr>, w1)))
            else Some (Inr (b, ?w))"
  let ?f3 = "\<lambda>(b4, w4). Some (Inr (b4, add_page (Join (path b4) ''C3.jpg'') w4))"
  let ?f2 = "\<lambda>(b3, w3). and_then
              (downloadPage e ''C3''
                 (b3, w3\<lparr>pdf := pdf w3 @ map (\<lambda>page. Join (path b3) (Itoa page @ ''.jpg''))
                                          [1..book_length b3]\<rparr>)) ?f3"
  let ?f1 = "\<lambda>(b2, w2). and_then
              (downloadBook_pages e 1
                 (b2\<lparr>retry := 2\<rparr>, add_page (Join (path b2) ''C1.jpg'') w2)) ?f2"
  let ?f0 = "\<lambda>bw1. and_then (downloadPage e ''C1'' bw1) ?f1"
  have d: "and_then ?m0 ?f0 = Some out"
    using run by (simp add: downloadBook_def Let_def)
  have noex: "?m0 \<noteq> Some (Inl s)" for s
    by (simp split: option.splits prod.splits)
  have st0: "rows b1 = rows b \<and> cols b1 = cols b \<and> imgSize b1 = imgSize b \<and> path b1 = path b
      \<and> pdf w1 = [] \<and> assembled w1 = assembled w"
    if m: "?m0 = Some (Inr (b1, w1))" for b1 w1
  proof (cases "book_length b = 0")
    case False
    then show ?thesis using m by auto
  next
    case True
    then obtain n b0 where f: "findBookLength_loop e 100 100 (b, ?w) = Some (n, b0, w1)"
      and b1: "b1 = b0\<lparr>book_length := n\<rparr>"
      using m by (auto simp: findBookLength_def split: option.splits prod.splits)
    show ?thesis
      using findBookLength_loop_frame[OF f] b1 by (simp add: kept_def untouched_def)
  qed
  from d show ?thesis
  proof (cases rule: and_then_SomeE)
    case (1 s)
    from noex[of s] 1(1) show ?thesis by (rule notE)
  next
    case (2 x)
    obtain b1 w1 where x: "x = (b1, w1)" by (cases x)
    have s0: "rows b1 = rows b" "cols b1 = cols b" "imgSize b1 = imgSize b" "path b1 = path b"
      "pdf w1 = []" "assembled w1 = assembled w"
      using st0[OF 2(1)[unfolded x]] by simp_all
    have g1: "session_grid b1 = ?g" using s0 by (simp add: session_grid_def)
    have d1: "and_then (downloadPage e ''C1'' (b1, w1)) ?f1 = Some out"
      using 2(2) x by simp
    from d1 show ?thesis
    proof (cases rule: and_then_SomeE)
      case (1 s)
      note c = downloadPage_run[OF 1(1)]
      have "assembled_with ?g w (world_of out)"
        using c 1(2) g1 s0(6) by (simp add: assembled_with_def)
      then show ?thesis using c 1(2) s0 by (simp add: kept_def)
    next
      case (2 x2)
      obtain b2 w2 where x2: "x2 = (b2, w2)" by (cases x2)
      note c = downloadPage_run[OF 2(1)]
      have k2: "kept b1 b2" "pdf w2 = []" "assembled_with ?g w w2"
        using c x2 g1 s0(5,6) by (simp_all add: assembled_with_def)
      let ?b2 = "b2\<lparr>retry := 2\<rparr>"
      let ?w2 = "add_page (Join (path b2) ''C1.jpg'') w2"
      have k2': "kept b1 ?b2" using k2(1) by (simp add: kept_def)
      have g2: "session_grid ?b2 = ?g" using session_grid_kept[OF k2'] g1 by simp
      have a2: "assembled_with ?g w ?w2"
        using k2(3) by (simp add: assembled_with_def add_page_def)
      have p2: "pdf ?w2 = [Join (path b) ''C1.jpg'']"
        using k2(1,2) s0(4) by (simp add: add_page_def kept_def)
      have d2: "and_then (downloadBook_pages e 1 (?b2, ?w2)) ?f2 = Some out"
        using 2(2) x2 by simp
      from d2 show ?thesis
      proof (cases rule: and_then_SomeE)
        case (1 s)
        note c = downloadBook_pages_frame[OF 1(1)]
        have "kept b1 (book_of out)" using c 1(2) kept_trans[OF k2'] by simp
        moreover have "assembled_with ?g w (world_of out)"
          using c 1(2) g2 assembled_with_trans[OF a2] by simp
        ultimately show ?thesis using 1(2) s0 by (simp add: kept_def)
      next
        case (2 x3)
        obtain b3 w3 where x3: "x3 = (b3, w3)" by (cases x3)
        note c = downloadBook_pages_frame[OF 2(1)]
        have k3: "kept b1 b3" using c x3 kept_trans[OF k2'] by simp
        have p3: "pdf w3 = [Join (path b) ''C1.jpg'']" using c x3 p2 by simp
        have a3: "assembled_with ?g w w3"
          using c x3 g2 assembled_with_trans[OF a2] by simp
        let ?w3 = "w3\<lparr>pdf := pdf w3 @ map (\<lambda>page. Join (path b3) (Itoa page @ ''.jpg''))
                                          [1..book_length b3]\<rparr>"
        have g3: "session_grid b3 = ?g" using session_grid_kept[OF k3] g1 by simp
        have a3': "assembled_with ?g w ?w3" using a3 by (simp add: assembled_with_def)
        have d3: "and_then (downloadPage e ''C3'' (b3, ?w3)) ?f3 = Some out"
          using 2(2) x3 by simp
        from d3 show ?thesis
        proof (cases rule: and_then_SomeE)
          case (1 s)
          note c = downloadPage_run[OF 1(1)]
          have "kept b1 (book_of out)" using c 1(2) kept_trans[OF k3] by simp
          moreover have "assembled_with ?g w (world_of out)"
            using c 1(2) g3 assembled_with_trans[OF a3'] by simp
          ultimately show ?thesis using 1(2) s0 by (simp add: kept_def)
        next
          case (2 x4)
          obtain b4 w4 where x4: "x4 = (b4, w4)" by (cases x4)
          note c = downloadPage_run[OF 2(1)]
          have k4: "kept b1 b4" using c x4 kept_trans[OF k3] by simp
          have k34: "kept b3 b4" using c x4 by simp
          have a4: "assembled_with ?g w w4"
            using c x4 g3 assembled_with_trans[OF a3'] by simp
          have p4: "pdf w4 = pdf ?w3" using c x4 by simp
          have out: "out = Inr (b4, add_page (Join (path b4) ''C3.jpg'') w4)"
            using 2(2) x4 by simp
          have pth: "path b4 = path b" "path b3 = path b" "book_length b3 = book_length b4"
            using k4 k3 k34 s0(4) by (simp_all add: kept_def)
          have "pdf (add_page (Join (path b4) ''C3.jpg'') w4) = pdf_pages (path b) (book_length b4)"
            using p4 p3 pth by (simp add: add_page_def pdf_pages_def Join_def)
          moreover have "assembled_with ?g w (add_page (Join (path b4) ''C3.jpg'') w4)"
            using a4 by (simp add: assembled_with_def add_page_def)
          ultimately show ?thesis using out k4 s0 by (simp add: kept_def)
        qed
      qed
    qed
  qed
qed

text \<open>
  Claim C9. In every run of the tiled program that returns or stops, the session is built
  by \<^verbatim>\<open>NewBook\<close>, whose grid discovery sets rows, columns and page size before any page is
  assembled; every page assembly of the run then finds exactly these rows, columns and
  page size in the session, and the session still holds them when the run ends.
\<close>

theorem grid_fixed_for_the_run:
  assumes "main e bookID len docType w = Some out"
  shows "\<exists>b0 w0 new. NewBook e bookID len docType w = Some (b0, w0)
         \<and> assembled w0 = assembled w
         \<and> assembled (world_of out) = assembled w @ new
         \<and> (\<forall>x \<in> set new. snd (snd x) = (rows b0, cols b0, imgSize b0))
         \<and> rows (book_of out) = rows b0 \<and> cols (book_of out) = cols b0
         \<and> imgSize (book_of out) = imgSize b0"
proof -
  obtain b0 w0 where nb: "NewBook e bookID len docType w = Some (b0, w0)"
    and run: "downloadBook e (b0, w0) = Some out"
    using assms by (auto simp: main_def split: option.splits)
  have a0: "assembled w0 = assembled w"
    using NewBook_frame[OF nb] by (simp add: untouched_def)
  note f = downloadBook_frame[OF run]
  obtain new where new: "assembled (world_of out) = assembled w0 @ new"
    "list_all (\<lambda>x. snd (snd x) = session_grid b0) new"
    using f unfolding assembled_with_def by blast
  have "\<forall>x \<in> set new. snd (snd x) = (rows b0, cols b0, imgSize b0)"
    using new(2) by (simp add: list_all_iff session_grid_def)
  then show ?thesis
    using nb a0 new(1) f by auto
qed

theorem grid_fixed_for_the_run_witness:
  "\<exists>out b0 w0 new.
      main (sandbox (grid_source 1 1 1 10 10)) ''000123456'' 1 '''' blank_world = Some out
    \<and> NewBook (sandbox (grid_source 1 1 1 10 10)) ''000123456'' 1 '''' blank_world = Some (b0, w0)
    \<and> assembled (world_of out) = new
    \<and> list_all (\<lambda>x. snd (snd x) = (rows b0, cols b0, imgSize b0)) new
    \<and> rows (book_of out) = rows b0 \<and> cols (book_of out) = cols b0
    \<and> imgSize (book_of out) = imgSize b0"
proof -
  let ?m = "main (sandbox (grid_source 1 1 1 10 10)) ''000123456'' 1 '''' blank_world"
  have "finished ?m" by code_simp
  then obtain out where run: "?m = Some out"
    by (cases ?m) simp_all
  obtain b0 w0 new where 1:
    "NewBook (sandbox (grid_source 1 1 1 10 10)) ''000123456'' 1 '''' blank_world = Some (b0, w0)"
    "assembled (world_of out) = assembled blank_world @ new"
    "\<forall>x \<in> set new. snd (snd x) = (rows b0, cols b0, imgSize b0)"
    "rows (book_of out) = rows b0" "cols (book_of out) = cols b0"
    "imgSize (book_of out) = imgSize b0"
    using grid_fixed_for_the_run[OF run] by blast
  have "assembled (world_of out) = new" using 1(2) by (simp add: blank_world_def)
  moreover have "list_all (\<lambda>x. snd (snd x) = (rows b0, cols b0, imgSize b0)) new"
    using 1(3) by (simp add: list_all_iff)
  ultimately show ?thesis using run 1(1,4,5,6) by blast
qed

section \<open>A source that always fails\<close>

text \<open>
  Claim C2. A page whose source fails on every attempt should be given up after
  \<open>budget + 1 = 3\<close> requests, with the budget back at 2 when the next page starts. Both
  programs test \<^verbatim>\<open>b.retry >= 0\<close> before they decrement, so a budget of 2 buys three retries.
  Against a source that answers every request with status 500 the direct program asks for
  the front cover four times and leaves the budget at \<open>-1\<close>; its reset \<^verbatim>\<open>b.retry = 2\<close> stands
  after the successful write only, so the pages 1, 2, 3 and the back cover are asked for
  once each. The tiled program asks four times for the only tile of a page of one tile.
\<close>

theorem failing_source_attempts_eval:
  "finished (downloadBook_direct (sandbox (status_source 500))
               (NewBook_direct ''000123456'' 3 '''', blank_world))
   \<and> map asked (log_of (downloadBook_direct (sandbox (status_source 500))
               (NewBook_direct ''000123456'' 3 '''', blank_world)))
       = [(GET, ''C1''), (GET, ''C1''), (GET, ''C1''), (GET, ''C1''), (HEAD, ''I1''),
          (GET, ''1''), (GET, ''2''), (GET, ''3''), (GET, ''C3'')]
   \<and> left_retry (downloadBook_direct (sandbox (status_source 500))
               (NewBook_direct ''000123456'' 3 '''', blank_world)) = Some (- 1)
   \<and> finished (downloadPage (sandbox (status_source 500)) ''C1''
               (tiled_session ''000123456'' 3 1 1 10 10, blank_world))
   \<and> map asked (log_of (downloadPage (sandbox (status_source 500)) ''C1''
               (tiled_session ''000123456'' 3 1 1 10 10, blank_world)))
       = [(GET, ''C1''), (GET, ''C1''), (GET, ''C1''), (GET, ''C1'')]
   \<and> left_retry (downloadPage (sandbox (status_source 500)) ''C1''
               (tiled_session ''000123456'' 3 1 1 10 10, blank_world)) = Some (- 1)"
  by code_simp

section \<open>A page given up is still written\<close>




section \<open>The direct program fetches a book page by page\<close>


lemma updateParams_direct_fields [simp]:
  "path (updateParams_direct p b) = path b"
  "book_length (updateParams_direct p b) = book_length b"
  "retry (updateParams_direct p b) = retry b"
  "urlTemplate (updateParams_direct p b) = urlTemplate b"
  by (simp_all add: updateParams_direct_def)

lemma page_file_direct [simp]:
  "page_file (updateParams_direct p b) q = page_file b q"
  "page_file (b\<lparr>retry := x\<rparr>) q = page_file b q"
  by (simp_all add: page_file_def)









lemma and_then_Inr [simp]: "and_then (Some (Inr x)) f = f x"
  by (simp add: and_then_def)







section \<open>The introduction pages of the direct program\<close>









end
